theory Spec2Isabelle
  imports Complex_Main "HOL-Library.Multiset"
begin

section \<open>Data model (types.ts)\<close>

text \<open>
  The discriminant \<open>NodeType = 'time' | 'task' | 'place' | 'branch' | 'block'\<close>. The three
  leaf kinds are grouped under \<open>Leaf\<close>, as \<open>SingleNode\<close> narrows \<open>type\<close> to them.
\<close>

datatype SingleType = Time | Task | Place

datatype NodeType = Leaf SingleType | Branch | Block

text \<open>
  \<open>BaseNode\<close>: the attributes every node has. An optional attribute (\<open>subtitle?\<close>) is an
  option, \<open>None\<close> when the property is absent. Text outside ASCII is held as its UTF-8
  bytes. The field \<open>id\<close> is named \<open>nid\<close> here.
\<close>

record BaseNode =
  nid :: string
  title :: string
  subtitle :: "string option"
  duration :: "string option"
  icon :: "string option"
  color :: "string option"
  isDashedConnection :: "bool option"

text \<open>
  \<open>FlowNode = SingleNode | BranchNode | BlockNode\<close>, a union tagged by \<open>type\<close>. The arrays
  \<open>branches\<close> and \<open>sideEvents\<close> are declared \<open>SingleNode[]\<close>, but the casts
  \<open>updatedNode as SingleNode\<close> in handleUpdateNode are not checked when the program runs,
  so an element of these arrays is any node here. \<open>customWidth\<close> and \<open>customHeight\<close> are
  numbers; a number is a real here, and where the arithmetic of the source is modelled
  with its rounding (handleWheel) the operations are those of the section on doubles.
\<close>

datatype FlowNode =
    SingleNode SingleType BaseNode
  | BranchNode BaseNode "FlowNode list"
  | BlockNode BaseNode "FlowNode list" "real option" "real option"

fun base :: "FlowNode \<Rightarrow> BaseNode" where
  "base (SingleNode t b) = b"
| "base (BranchNode b branches) = b"
| "base (BlockNode b sideEvents w h) = b"

definition node_id :: "FlowNode \<Rightarrow> string" where
  "node_id n = nid (base n)"

text \<open>The nested array of a node: \<open>branches\<close> of a branch, \<open>sideEvents\<close> of a block.\<close>

fun children :: "FlowNode \<Rightarrow> FlowNode list" where
  "children (SingleNode t b) = []"
| "children (BranchNode b branches) = branches"
| "children (BlockNode b sideEvents w h) = sideEvents"

text \<open>\<open>{...n, branches: cs}\<close> for a branch, \<open>{...n, sideEvents: cs}\<close> for a block.\<close>

fun with_children :: "FlowNode \<Rightarrow> FlowNode list \<Rightarrow> FlowNode" where
  "with_children (SingleNode t b) cs = SingleNode t b"
| "with_children (BranchNode b branches) cs = BranchNode b cs"
| "with_children (BlockNode b sideEvents w h) cs = BlockNode b cs w h"

text \<open>
  The identifiers of one top-level node, its own first and then those of its nested
  array, and the identifiers of a whole sequence: the top level and all nested branch
  children and block side-events combined.
\<close>

definition node_ids :: "FlowNode \<Rightarrow> string list" where
  "node_ids n = node_id n # map node_id (children n)"

definition all_ids :: "FlowNode list \<Rightarrow> string list" where
  "all_ids list = concat (map node_ids list)"

section \<open>JavaScript helpers\<close>

text \<open>
  Truthiness of a value of type \<open>string | null\<close> (or \<open>string | undefined\<close>): \<open>null\<close>,
  \<open>undefined\<close> and the empty string are falsy.
\<close>

definition truthy :: "string option \<Rightarrow> bool" where
  "truthy v = (case v of None \<Rightarrow> False | Some t \<Rightarrow> t \<noteq> [])"

text \<open>\<open>Array.prototype.findIndex\<close>: the first index whose element passes, \<open>None\<close> for -1.\<close>

fun findIndex :: "('a \<Rightarrow> bool) \<Rightarrow> 'a list \<Rightarrow> nat option" where
  "findIndex P [] = None"
| "findIndex P (x # xs) = (if P x then Some 0 else map_option Suc (findIndex P xs))"

text \<open>\<open>xs.splice(k, 0, x)\<close> for \<open>k \<le> xs.length\<close>, and \<open>xs.splice(k, 1)\<close>.\<close>

definition splice_insert :: "nat \<Rightarrow> 'a \<Rightarrow> 'a list \<Rightarrow> 'a list" where
  "splice_insert k x xs = take k xs @ x # drop k xs"

definition splice_remove :: "nat \<Rightarrow> 'a list \<Rightarrow> 'a list" where
  "splice_remove k xs = take k xs @ drop (Suc k) xs"

text \<open>\<open>Number.prototype.toString\<close> on a non-negative integer: its decimal digits.\<close>

fun toString :: "nat \<Rightarrow> string" where
  "toString n =
     (if n < 10 then [''0123456789'' ! n]
      else toString (n div 10) @ [''0123456789'' ! (n mod 10)])"

declare toString.simps [simp del]

section \<open>Application state (App.tsx)\<close>

record Layout =
  layout_id :: string
  layout_name :: string
  layout_nodes :: "FlowNode list"

text \<open>
  The persisted root. \<open>activeLayoutId\<close> is \<open>None\<close> when the stored object has no such
  property; a stored object without \<open>layouts\<close> is one with the empty list (both fail the
  test \<open>savedData.layouts && savedData.layouts.length > 0\<close>).
\<close>

record AppData =
  data_layouts :: "Layout list"
  data_activeLayoutId :: "string option"

record AppState =
  layouts :: "Layout list"
  activeLayoutId :: string
  nodes :: "FlowNode list"
  selectedNodeId :: "string option"
  lastSavedTime :: string

subsection \<open>Load on mount\<close>

text \<open>
  What \<open>localStorage.getItem('FLOWDAY_APP_DATA')\<close> and \<open>JSON.parse\<close> give: no item, an
  item that does not parse (the exception is caught and logged), or an object.
\<close>

datatype Stored = NoItem | Unparsable | Item AppData

text \<open>The load effect; \<open>hhmm\<close> is the clock reading written to \<open>lastSavedTime\<close>.\<close>

definition loadOnMount :: "Stored \<Rightarrow> string \<Rightarrow> AppState \<Rightarrow> AppState" where
  "loadOnMount stored hhmm s =
     (case stored of
        NoItem \<Rightarrow> s
      | Unparsable \<Rightarrow> s
      | Item savedData \<Rightarrow>
          (case data_layouts savedData of
             [] \<Rightarrow> s
           | first # rest \<Rightarrow>
               (let activeId =
                      (if truthy (data_activeLayoutId savedData)
                       then (case data_activeLayoutId savedData of Some a \<Rightarrow> a | None \<Rightarrow> layout_id first)
                       else layout_id first);
                    activeLayout =
                      (case find (\<lambda>l. layout_id l = activeId) (data_layouts savedData) of
                         Some l \<Rightarrow> l
                       | None \<Rightarrow> first)
                in s\<lparr>layouts := data_layouts savedData,
                     activeLayoutId := activeId,
                     nodes := layout_nodes activeLayout,
                     lastSavedTime := hhmm\<rparr>)))"

text \<open>
  \<open>getPersistentData\<close>: the current nodes merged into the layout whose id is the active
  one, as every save writes it.
\<close>

definition getPersistentData :: "Layout list \<Rightarrow> string \<Rightarrow> FlowNode list \<Rightarrow> AppData" where
  "getPersistentData currentLayouts currentActiveId currentNodes =
     \<lparr>data_layouts =
        map (\<lambda>l. if layout_id l = currentActiveId then l\<lparr>layout_nodes := currentNodes\<rparr> else l)
          currentLayouts,
      data_activeLayoutId = Some currentActiveId\<rparr>"

subsection \<open>handleUpdateNode\<close>

text \<open>
  How an element of a result array was produced: \<open>Kept\<close> is the very object that stood
  in the input array (\<open>return n\<close>, or \<open>b\<close> in the inner map), \<open>Replacement\<close> is the
  object \<open>updatedNode\<close>, and \<open>Copy\<close> is a new object literal \<open>{...n, branches: ...}\<close> or
  \<open>{...n, sideEvents: ...}\<close>, with the provenance of each element of its new nested array.
\<close>

datatype Provenance = Kept | Replacement | Copy "Provenance list"

text \<open>The callback of the inner map: \<open>b => b.id === updatedNode.id ? updatedNode : b\<close>.\<close>

definition updateChild :: "FlowNode \<Rightarrow> FlowNode \<Rightarrow> FlowNode \<times> Provenance" where
  "updateChild updatedNode b =
     (if node_id b = node_id updatedNode then (updatedNode, Replacement) else (b, Kept))"

text \<open>The callback of the outer map, each \<open>return\<close> with the provenance of its object.\<close>

fun updateTop :: "FlowNode \<Rightarrow> FlowNode \<Rightarrow> FlowNode \<times> Provenance" where
  "updateTop updatedNode (SingleNode t b) =
     (if node_id (SingleNode t b) = node_id updatedNode then (updatedNode, Replacement)
      else (SingleNode t b, Kept))"
| "updateTop updatedNode (BranchNode b branches) =
     (if node_id (BranchNode b branches) = node_id updatedNode then (updatedNode, Replacement)
      else if list_ex (\<lambda>c. node_id c = node_id updatedNode) branches
      then (BranchNode b (map (fst \<circ> updateChild updatedNode) branches),
            Copy (map (snd \<circ> updateChild updatedNode) branches))
      else (BranchNode b branches, Kept))"
| "updateTop updatedNode (BlockNode b sideEvents w h) =
     (if node_id (BlockNode b sideEvents w h) = node_id updatedNode then (updatedNode, Replacement)
      else if list_ex (\<lambda>c. node_id c = node_id updatedNode) sideEvents
      then (BlockNode b (map (fst \<circ> updateChild updatedNode) sideEvents) w h,
            Copy (map (snd \<circ> updateChild updatedNode) sideEvents))
      else (BlockNode b sideEvents w h, Kept))"

definition updateRecursive :: "FlowNode \<Rightarrow> FlowNode list \<Rightarrow> FlowNode list" where
  "updateRecursive updatedNode list = map (fst \<circ> updateTop updatedNode) list"

definition updateProvenance :: "FlowNode \<Rightarrow> FlowNode list \<Rightarrow> Provenance list" where
  "updateProvenance updatedNode list = map (snd \<circ> updateTop updatedNode) list"

definition handleUpdateNode :: "FlowNode \<Rightarrow> AppState \<Rightarrow> AppState" where
  "handleUpdateNode updatedNode s = s\<lparr>nodes := updateRecursive updatedNode (nodes s)\<rparr>"

subsection \<open>handleDeleteNode\<close>

definition deleteRecursive :: "string \<Rightarrow> FlowNode list \<Rightarrow> FlowNode list" where
  "deleteRecursive i list =
     map (\<lambda>n. case n of
                 SingleNode t b \<Rightarrow> n
               | BranchNode b branches \<Rightarrow> BranchNode b (filter (\<lambda>c. node_id c \<noteq> i) branches)
               | BlockNode b sideEvents w h \<Rightarrow>
                   BlockNode b (filter (\<lambda>c. node_id c \<noteq> i) sideEvents) w h)
       (filter (\<lambda>n. node_id n \<noteq> i) list)"

definition handleDeleteNode :: "string \<Rightarrow> AppState \<Rightarrow> AppState" where
  "handleDeleteNode i s =
     s\<lparr>nodes := deleteRecursive i (nodes s),
       selectedNodeId := (if selectedNodeId s = Some i then None else selectedNodeId s)\<rparr>"

subsection \<open>createNode, handleAddNode, handleDropNode\<close>

text \<open>
  \<open>createNode\<close>; \<open>now\<close> is the reading of \<open>Date.now()\<close>, in milliseconds. The parameter
  is declared \<open>string\<close>; its callers pass a \<open>NodeType\<close>.
\<close>

definition createNode :: "NodeType \<Rightarrow> nat \<Rightarrow> FlowNode" where
  "createNode ty now =
     (let newId = toString now in
      case ty of
        Block \<Rightarrow>
          BlockNode
            \<lparr>nid = newId,
             title = [CHR 0xE6, CHR 0x96, CHR 0xB0, CHR 0xE6, CHR 0x97, CHR 0xB6,
                      CHR 0xE9, CHR 0x97, CHR 0xB4, CHR 0xE6, CHR 0xAE, CHR 0xB5],
             subtitle = Some [CHR 0xE4, CHR 0xB8, CHR 0x93, CHR 0xE6, CHR 0xB3, CHR 0xA8,
                              CHR 0xE4, CHR 0xBB, CHR 0xBB, CHR 0xE5, CHR 0x8A, CHR 0xA1,
                              CHR 0x2E, CHR 0x2E, CHR 0x2E],
             duration = Some ''60 mins'',
             icon = Some ''Hourglass'',
             color = Some ''violet'',
             isDashedConnection = None\<rparr>
            [] None None
      | Branch \<Rightarrow>
          BranchNode
            \<lparr>nid = newId,
             title = [CHR 0xE5, CHR 0xB9, CHR 0xB6, CHR 0xE8, CHR 0xA1, CHR 0x8C,
                      CHR 0xE7, CHR 0xBB, CHR 0x84],
             subtitle = Some [],
             duration = None,
             icon = None,
             color = None,
             isDashedConnection = None\<rparr>
            [SingleNode Task
               \<lparr>nid = newId @ ''_1'',
                title = [CHR 0xE4, CHR 0xBB, CHR 0xBB, CHR 0xE5, CHR 0x8A, CHR 0xA1,
                         CHR 0x20, CHR 0x41],
                subtitle = Some [],
                duration = Some ''15 mins'',
                icon = Some ''Square'',
                color = Some ''white'',
                isDashedConnection = None\<rparr>,
             SingleNode Task
               \<lparr>nid = newId @ ''_2'',
                title = [CHR 0xE4, CHR 0xBB, CHR 0xBB, CHR 0xE5, CHR 0x8A, CHR 0xA1,
                         CHR 0x20, CHR 0x42],
                subtitle = Some [],
                duration = Some ''15 mins'',
                icon = Some ''Square'',
                color = Some ''white'',
                isDashedConnection = None\<rparr>]
      | Leaf t \<Rightarrow>
          SingleNode t
            \<lparr>nid = newId,
             title = (if t = Time then ''00:00''
                      else [CHR 0xE6, CHR 0x96, CHR 0xB0, CHR 0xE8, CHR 0x8A, CHR 0x82,
                            CHR 0xE7, CHR 0x82, CHR 0xB9]),
             subtitle = Some [],
             duration = None,
             icon = (if t = Task then Some ''Square'' else None),
             color = Some (if t = Time then ''rose'' else if t = Place then ''yellow'' else ''white''),
             isDashedConnection = None\<rparr>)"

definition handleAddNode :: "NodeType \<Rightarrow> nat \<Rightarrow> AppState \<Rightarrow> AppState" where
  "handleAddNode ty now s =
     (let newNode = createNode ty now;
          appended = s\<lparr>nodes := nodes s @ [newNode], selectedNodeId := Some (node_id newNode)\<rparr>
      in if truthy (selectedNodeId s)
         then (case findIndex (\<lambda>n. Some (node_id n) = selectedNodeId s) (nodes s) of
                 Some rootIndex \<Rightarrow>
                   s\<lparr>nodes := splice_insert (rootIndex + 1) newNode (nodes s),
                     selectedNodeId := Some (node_id newNode)\<rparr>
               | None \<Rightarrow> appended)
         else appended)"

text \<open>
  The drag payload \<open>{ source, id?, type }\<close> read from the drag channel. \<open>drag_id\<close> is
  \<open>None\<close> when the payload has no \<open>id\<close> (the sidebar writes none).
\<close>

record DragData =
  drag_source :: string
  drag_id :: "string option"
  drag_type :: NodeType

datatype Position = Before | After | Append

text \<open>
  The first half of handleDropNode: the node to insert and the array it goes into, or
  \<open>None\<close> where the handler returns without a change. A sidebar payload makes a new
  node; a canvas payload takes the dragged node out of the top level.
\<close>

definition pickDropped :: "DragData \<Rightarrow> nat \<Rightarrow> FlowNode list \<Rightarrow> (FlowNode list \<times> FlowNode) option" where
  "pickDropped dragData now list =
     (if drag_source dragData = ''sidebar''
      then Some (list, createNode (drag_type dragData) now)
      else if drag_source dragData = ''canvas''
      then (case findIndex (\<lambda>n. Some (node_id n) = drag_id dragData) list of
              None \<Rightarrow> None
            | Some existingIndex \<Rightarrow> Some (splice_remove existingIndex list, list ! existingIndex))
      else None)"

text \<open>The second half: where the node is put.\<close>

definition placeDropped :: "string option \<Rightarrow> Position \<Rightarrow> FlowNode \<Rightarrow> FlowNode list \<Rightarrow> FlowNode list" where
  "placeDropped targetId position nodeToInsert newNodes =
     (if position = Append \<or> \<not> truthy targetId then newNodes @ [nodeToInsert]
      else (case findIndex (\<lambda>n. Some (node_id n) = targetId) newNodes of
              Some targetIndex \<Rightarrow>
                splice_insert (if position = Before then targetIndex else targetIndex + 1)
                  nodeToInsert newNodes
            | None \<Rightarrow> newNodes @ [nodeToInsert]))"

text \<open>
  \<open>dragData.id === targetId\<close> holds only when both are the same string: an absent
  \<open>id\<close> is \<open>undefined\<close>, which is not \<open>null\<close>.
\<close>

definition handleDropNode :: "DragData \<Rightarrow> string option \<Rightarrow> Position \<Rightarrow> nat \<Rightarrow> AppState \<Rightarrow> AppState" where
  "handleDropNode dragData targetId position now s =
     (if drag_id dragData \<noteq> None \<and> drag_id dragData = targetId then s
      else (case pickDropped dragData now (nodes s) of
              None \<Rightarrow> s
            | Some (newNodes, nodeToInsert) \<Rightarrow>
                s\<lparr>nodes := placeDropped targetId position nodeToInsert newNodes,
                  selectedNodeId :=
                    (if drag_source dragData = ''sidebar'' then Some (node_id nodeToInsert)
                     else selectedNodeId s)\<rparr>))"

section \<open>Canvas (FlowCanvas.tsx)\<close>

datatype ViewMode = VerticalView | MapView

text \<open>The state of the FlowCanvas component; \<open>pan\<close> is held as its two coordinates.\<close>

record CanvasState =
  viewMode :: ViewMode
  isDragging :: bool
  isOverTrash :: bool
  zoom :: real
  pan_x :: real
  pan_y :: real
  isPanning :: bool
  dragOverId :: "string option"
  dropPosition :: "Position option"

record MouseEvent =
  clientX :: real
  clientY :: real

record WheelEvent = MouseEvent +
  buttons :: nat
  ctrlKey :: bool
  deltaX :: real
  deltaY :: real

record DOMRect =
  rect_left :: real
  rect_top :: real
  rect_width :: real
  rect_height :: real

subsection \<open>Double arithmetic\<close>

text \<open>
  JavaScript numbers are IEEE-754 doubles. A finite double is a real \<open>m * 2 powi e\<close> with
  an integer \<open>m\<close>, \<open>\<bar>m\<bar> < 2 ^ 53\<close>, and \<open>- 1074 \<le> e\<close>; an arithmetic operation gives the double
  nearest to the exact result, a tie going to the even significand. \<open>rne\<close> rounds a real
  to the nearest integer, ties to even; \<open>ulp_exp x\<close> is the exponent of the last binary
  place of the doubles around \<open>x\<close> (the subnormal range has the fixed exponent -1074);
  \<open>rnd\<close> is the rounding of a real to the nearest double. Overflow to \<open>Infinity\<close> is not
  modelled: \<open>rnd x\<close> is the program's rounding where \<open>\<bar>x\<bar> < 2 ^ 1024\<close>. Unary minus,
  \<open>Math.min\<close>, \<open>Math.max\<close> and comparisons are exact on doubles. A decimal literal of
  the source (\<open>0.001\<close>) is the double nearest to it (\<open>rnd 0.001\<close>).
\<close>

definition rne :: "real \<Rightarrow> int" where
  "rne x =
     (let f = \<lfloor>x\<rfloor>; d = x - of_int f
      in if d < 1 / 2 then f else if 1 / 2 < d then f + 1 else if even f then f else f + 1)"

definition ulp_exp :: "real \<Rightarrow> int" where
  "ulp_exp x = max (\<lfloor>log 2 \<bar>x\<bar>\<rfloor> - 52) (- 1074)"

definition rnd :: "real \<Rightarrow> real" where
  "rnd x = (if x = 0 then 0 else of_int (rne (x / 2 powi ulp_exp x)) * 2 powi ulp_exp x)"

text \<open>The four operations of the source on doubles: \<open>+\<close>, \<open>-\<close>, \<open>*\<close>, \<open>/\<close>.\<close>

definition fadd :: "real \<Rightarrow> real \<Rightarrow> real" where
  "fadd x y = rnd (x + y)"

definition fsub :: "real \<Rightarrow> real \<Rightarrow> real" where
  "fsub x y = rnd (x - y)"

definition fmul :: "real \<Rightarrow> real \<Rightarrow> real" where
  "fmul x y = rnd (x * y)"

definition fdiv :: "real \<Rightarrow> real \<Rightarrow> real" where
  "fdiv x y = rnd (x / y)"

text \<open>
  Inputs of a wheel event far below the overflow threshold: with them and a zoom of at
  least 0.2, no operation of handleWheel reaches \<open>2 ^ 1024\<close>.
\<close>

definition wheel_inputs_bounded :: "WheelEvent \<Rightarrow> DOMRect \<Rightarrow> CanvasState \<Rightarrow> bool" where
  "wheel_inputs_bounded e r c =
     (\<bar>clientX e\<bar> \<le> 2 ^ 1000 \<and> \<bar>clientY e\<bar> \<le> 2 ^ 1000 \<and>
      \<bar>rect_left r\<bar> \<le> 2 ^ 1000 \<and> \<bar>rect_top r\<bar> \<le> 2 ^ 1000 \<and>
      \<bar>pan_x c\<bar> \<le> 2 ^ 1000 \<and> \<bar>pan_y c\<bar> \<le> 2 ^ 1000 \<and> \<bar>deltaY e\<bar> \<le> 2 ^ 1000)"

subsection \<open>Zoom and pan\<close>

definition handleZoomIn :: "CanvasState \<Rightarrow> CanvasState" where
  "handleZoomIn c = c\<lparr>zoom := min (zoom c + 0.1) 2\<rparr>"

definition handleZoomOut :: "CanvasState \<Rightarrow> CanvasState" where
  "handleZoomOut c = c\<lparr>zoom := max (zoom c - 0.1) 0.2\<rparr>"

definition handleResetZoom :: "CanvasState \<Rightarrow> CanvasState" where
  "handleResetZoom c = c\<lparr>zoom := 1, pan_x := 0, pan_y := 0\<rparr>"

text \<open>
  \<open>handleWheel\<close>, in double arithmetic; \<open>containerRect\<close> is
  \<open>containerRef.current?.getBoundingClientRect()\<close>, \<open>None\<close> when the ref is not attached.
\<close>

definition handleWheel :: "WheelEvent \<Rightarrow> DOMRect option \<Rightarrow> CanvasState \<Rightarrow> CanvasState" where
  "handleWheel e containerRect c =
     (if buttons e = 2 \<or> ctrlKey e
      then (case containerRect of
              None \<Rightarrow> c
            | Some r \<Rightarrow>
                (let mouseX = fsub (clientX e) (rect_left r);
                     mouseY = fsub (clientY e) (rect_top r);
                     worldX = fdiv (fsub mouseX (pan_x c)) (zoom c);
                     worldY = fdiv (fsub mouseY (pan_y c)) (zoom c);
                     scaleAmount = fmul (- deltaY e) (rnd 0.001);
                     newZoom = min (max (fadd (zoom c) scaleAmount) (rnd 0.2)) 3;
                     newPanX = fsub mouseX (fmul worldX newZoom);
                     newPanY = fsub mouseY (fmul worldY newZoom)
                 in c\<lparr>zoom := newZoom, pan_x := newPanX, pan_y := newPanY\<rparr>))
      else c\<lparr>pan_x := fsub (pan_x c) (fmul (deltaX e) 1),
             pan_y := fsub (pan_y c) (fmul (deltaY e) 1)\<rparr>)"

subsection \<open>Drag over a node, drag over the trash zone\<close>




definition trash_onDragOver :: "CanvasState \<Rightarrow> CanvasState" where
  "trash_onDragOver c = c\<lparr>isOverTrash := True, dragOverId := None\<rparr>"

definition trash_onDragLeave :: "CanvasState \<Rightarrow> CanvasState" where
  "trash_onDragLeave c = c\<lparr>isOverTrash := False\<rparr>"

subsection \<open>handleDrop\<close>

text \<open>
  What \<open>e.dataTransfer.getData('application/reactflow')\<close> and \<open>JSON.parse\<close> give: an
  empty string, a string that does not parse to a payload (the exception is caught), or
  a payload.
\<close>

datatype DataTransfer = NoData | BadData | Payload DragData

text \<open>The callback of the props that a drop invokes, with its arguments.\<close>

datatype Callback =
    OnDeleteNode "string option"
  | OnDropNode DragData "string option" Position

definition handleDrop :: "DataTransfer \<Rightarrow> CanvasState \<Rightarrow> CanvasState \<times> Callback option" where
  "handleDrop dataTransfer c =
     (let c' = c\<lparr>isDragging := False, dragOverId := None, dropPosition := None,
                   isOverTrash := False\<rparr>
      in case dataTransfer of
           NoData \<Rightarrow> (c', None)
         | BadData \<Rightarrow> (c', None)
         | Payload data \<Rightarrow>
             if isOverTrash c
             then (if drag_source data = ''canvas'' then (c', Some (OnDeleteNode (drag_id data)))
                   else (c', None))
             else (case dropPosition c of
                     Some position \<Rightarrow>
                       if truthy (dragOverId c)
                       then (if drag_id data \<noteq> dragOverId c
                             then (c', Some (OnDropNode data (dragOverId c) position))
                             else (c', None))
                       else (if drag_source data = ''sidebar''
                             then (c', Some (OnDropNode data None Append))
                             else (c', None))
                   | None \<Rightarrow>
                       if drag_source data = ''sidebar''
                       then (c', Some (OnDropNode data None Append))
                       else (c', None)))"

text \<open>
  The callbacks as App.tsx binds them. \<open>onDeleteNode\<close> with an absent id changes
  nothing: no node has the id \<open>undefined\<close>, and the selection is a string or \<open>null\<close>.
\<close>

fun dispatch :: "Callback \<Rightarrow> nat \<Rightarrow> AppState \<Rightarrow> AppState" where
  "dispatch (OnDeleteNode None) now s = s"
| "dispatch (OnDeleteNode (Some i)) now s = handleDeleteNode i s"
| "dispatch (OnDropNode d targetId position) now s = handleDropNode d targetId position now s"

text \<open>A drop event on the canvas, on both states.\<close>

definition dropEvent :: "DataTransfer \<Rightarrow> nat \<Rightarrow> CanvasState \<times> AppState \<Rightarrow> CanvasState \<times> AppState" where
  "dropEvent dataTransfer now cs =
     (case handleDrop dataTransfer (fst cs) of
        (c', None) \<Rightarrow> (c', snd cs)
      | (c', Some k) \<Rightarrow> (c', dispatch k now (snd cs)))"

subsection \<open>Block resize (BlockRenderer)\<close>

record ResizeStart =
  startX :: real
  startY :: real
  startWidth :: real
  startHeight :: real

text \<open>
  \<open>handleResizeStart\<close>: \<open>node.customWidth || 128\<close> is 128 when the width is absent or 0.
\<close>

definition handleResizeStart :: "'a MouseEvent_scheme \<Rightarrow> real option \<Rightarrow> real option \<Rightarrow> ResizeStart" where
  "handleResizeStart e customWidth customHeight =
     \<lparr>startX = clientX e,
      startY = clientY e,
      startWidth = (case customWidth of None \<Rightarrow> 128 | Some w \<Rightarrow> if w = 0 then 128 else w),
      startHeight = (case customHeight of None \<Rightarrow> 128 | Some h \<Rightarrow> if h = 0 then 128 else h)\<rparr>"

text \<open>
  The mouse-move listener of a resize: the node it passes to \<open>onUpdateNode\<close>. The block
  of the renderer is given by its parts \<open>b\<close> and \<open>sideEvents\<close>; \<open>z\<close> is the zoom.
\<close>

definition resize_handleMouseMove ::
  "'a MouseEvent_scheme \<Rightarrow> ResizeStart \<Rightarrow> real \<Rightarrow> BaseNode \<Rightarrow> FlowNode list \<Rightarrow> FlowNode" where
  "resize_handleMouseMove moveEvent st z b sideEvents =
     (let dx = (clientX moveEvent - startX st) / z;
          dy = (clientY moveEvent - startY st) / z;
          newWidth = max 100 (startWidth st + dx);
          newHeight = max 100 (startHeight st + dy)
      in BlockNode b sideEvents (Some newWidth) (Some newHeight))"

fun customWidth :: "FlowNode \<Rightarrow> real option" where
  "customWidth (BlockNode b sideEvents w h) = w"
| "customWidth (SingleNode t b) = None"
| "customWidth (BranchNode b branches) = None"

fun customHeight :: "FlowNode \<Rightarrow> real option" where
  "customHeight (BlockNode b sideEvents w h) = h"
| "customHeight (SingleNode t b) = None"
| "customHeight (BranchNode b branches) = None"

section \<open>Sequences of operations\<close>

text \<open>The four operations on the node sequence, and a finite composition of them.\<close>

datatype Op =
    AddNode NodeType nat
  | DropNode DragData "string option" Position nat
  | UpdateNode FlowNode
  | DeleteNode string

fun applyOp :: "Op \<Rightarrow> AppState \<Rightarrow> AppState" where
  "applyOp (AddNode ty now) s = handleAddNode ty now s"
| "applyOp (DropNode d targetId position now) s = handleDropNode d targetId position now s"
| "applyOp (UpdateNode u) s = handleUpdateNode u s"
| "applyOp (DeleteNode i) s = handleDeleteNode i s"

fun runOps :: "Op list \<Rightarrow> AppState \<Rightarrow> AppState" where
  "runOps [] s = s"
| "runOps (op # ops) s = runOps ops (applyOp op s)"

text \<open>No identifier of the node \<open>n\<close> occurs in the sequence.\<close>

definition fresh_for :: "FlowNode \<Rightarrow> FlowNode list \<Rightarrow> bool" where
  "fresh_for n list = list_all (\<lambda>i. i \<notin> set (all_ids list)) (node_ids n)"

text \<open>
  The replacement \<open>u\<close> is safe for the sequence: if it replaces a top-level node, its
  own identifiers are pairwise distinct and those of its nested array occur nowhere
  in the other top-level nodes and their nested arrays.
\<close>

definition update_fresh :: "FlowNode \<Rightarrow> FlowNode list \<Rightarrow> bool" where
  "update_fresh u list =
     (if list_ex (\<lambda>n. node_id n = node_id u) list
      then distinct (node_ids u) \<and>
           list_all (\<lambda>i. i \<notin> set (all_ids (filter (\<lambda>m. node_id m \<noteq> node_id u) list)))
             (map node_id (children u))
      else True)"

fun op_fresh :: "AppState \<Rightarrow> Op \<Rightarrow> bool" where
  "op_fresh s (AddNode ty now) = fresh_for (createNode ty now) (nodes s)"
| "op_fresh s (DropNode d targetId position now) =
     (if drag_source d = ''sidebar'' then fresh_for (createNode (drag_type d) now) (nodes s)
      else True)"
| "op_fresh s (UpdateNode u) = update_fresh u (nodes s)"
| "op_fresh s (DeleteNode i) = True"

fun ops_fresh :: "AppState \<Rightarrow> Op list \<Rightarrow> bool" where
  "ops_fresh s [] = True"
| "ops_fresh s (op # ops) = (op_fresh s op \<and> ops_fresh (applyOp op s) ops)"

text \<open>
  The number of array elements the filters of deleteRecursive drop: elements of the top
  level, and elements of the nested arrays of the top-level nodes that stay.
\<close>

definition removed_count :: "string \<Rightarrow> FlowNode list \<Rightarrow> nat" where
  "removed_count i list =
     length (filter (\<lambda>n. node_id n = i) list) +
     sum_list (map (\<lambda>n. length (filter (\<lambda>c. node_id c = i) (children n)))
                 (filter (\<lambda>n. node_id n \<noteq> i) list))"

section \<open>Example data\<close>

text \<open>
  A base with the identifier \<open>i\<close> and no optional attribute, and a sequence with the
  identifiers and shapes of the first four nodes of \<open>INITIAL_NODES\<close> (constants.tsx): a
  time node, a branch with two tasks, a block with one side event, a task.
\<close>

definition mk_base :: "string \<Rightarrow> BaseNode" where
  "mk_base i =
     \<lparr>nid = i, title = i, subtitle = None, duration = None, icon = None, color = None,
      isDashedConnection = None\<rparr>"

definition ex_nodes :: "FlowNode list" where
  "ex_nodes =
     [SingleNode Time (mk_base ''1''),
      BranchNode (mk_base ''2'') [SingleNode Task (mk_base ''2a''), SingleNode Task (mk_base ''2b'')],
      BlockNode (mk_base ''block_1'') [SingleNode Time (mk_base ''side_1'')] None None,
      SingleNode Task (mk_base ''task_lunch'')]"

text \<open>\<open>ex_nodes\<close> without its first node.\<close>

definition ex_rest :: "FlowNode list" where
  "ex_rest =
     [BranchNode (mk_base ''2'') [SingleNode Task (mk_base ''2a''), SingleNode Task (mk_base ''2b'')],
      BlockNode (mk_base ''block_1'') [SingleNode Time (mk_base ''side_1'')] None None,
      SingleNode Task (mk_base ''task_lunch'')]"

definition ex_state :: AppState where
  "ex_state =
     \<lparr>layouts = [], activeLayoutId = ''layout_weekday'', nodes = ex_nodes,
      selectedNodeId = None, lastSavedTime = []\<rparr>"

definition ex_canvas :: CanvasState where
  "ex_canvas =
     \<lparr>viewMode = VerticalView, isDragging = False, isOverTrash = False, zoom = 1,
      pan_x = 0, pan_y = 0, isPanning = False, dragOverId = None, dropPosition = None\<rparr>"

text \<open>
  A run of the four operations on \<open>ex_state\<close>: a branch is added, a nested task deleted,
  the first node moved behind the block, a task dropped from the sidebar before the
  branch, and the block updated with one more side event (as addSideEvent builds it).
\<close>

definition ex_ops :: "Op list" where
  "ex_ops =
     [AddNode Branch 1730000000000,
      DeleteNode ''2a'',
      DropNode \<lparr>drag_source = ''canvas'', drag_id = Some ''1'', drag_type = Leaf Time\<rparr>
        (Some ''block_1'') After 1730000000500,
      DropNode \<lparr>drag_source = ''sidebar'', drag_id = None, drag_type = Leaf Task\<rparr>
        (Some ''2'') Before 1730000001000,
      UpdateNode (BlockNode (mk_base ''block_1'')
        [SingleNode Time (mk_base ''side_1''),
         SingleNode Task (mk_base ''block_1_side_1730000002000'')]
        None None)]"

definition ex_move :: DragData where
  "ex_move = \<lparr>drag_source = ''canvas'', drag_id = Some ''1'', drag_type = Leaf Time\<rparr>"

definition ex_tool :: DragData where
  "ex_tool = \<lparr>drag_source = ''sidebar'', drag_id = None, drag_type = Leaf Task\<rparr>"

definition ex_update :: FlowNode where
  "ex_update = SingleNode Task ((mk_base ''2a'')\<lparr>title := ''wash''\<rparr>)"

definition ex_wheel :: WheelEvent where
  "ex_wheel = \<lparr>clientX = 100, clientY = 100, buttons = 0, ctrlKey = True, deltaX = 0, deltaY = - 500\<rparr>"

definition ex_rect :: DOMRect where
  "ex_rect = \<lparr>rect_left = 0, rect_top = 0, rect_width = 800, rect_height = 600\<rparr>"


definition ex_pointer :: MouseEvent where
  "ex_pointer = \<lparr>clientX = 0, clientY = 0\<rparr>"

definition ex_saved :: AppData where
  "ex_saved =
     \<lparr>data_layouts =
        [\<lparr>layout_id = ''layout_weekday'', layout_name = ''Weekday'', layout_nodes = ex_nodes\<rparr>,
         \<lparr>layout_id = ''layout_weekend'', layout_name = ''Weekend'', layout_nodes = []\<rparr>],
      data_activeLayoutId = Some ''layout_1730000000000''\<rparr>"

text \<open>
  A wheel event with the zoom modifier at the pointer (16, 100) with \<open>deltaY = 100\<close>, and
  the canvas at zoom 1 with pan (300, 0).
\<close>

definition ex_wheel_out :: WheelEvent where
  "ex_wheel_out = \<lparr>clientX = 16, clientY = 100, buttons = 0, ctrlKey = True, deltaX = 0, deltaY = 100\<rparr>"

definition ex_canvas_panned :: CanvasState where
  "ex_canvas_panned = ex_canvas\<lparr>pan_x := 300\<rparr>"

lemmas ev_defs = ex_state_def ex_nodes_def mk_base_def node_ids_def node_id_def
  fresh_for_def update_fresh_def createNode_def handleAddNode_def handleDropNode_def
  handleUpdateNode_def handleDeleteNode_def deleteRecursive_def updateRecursive_def
  updateChild_def pickDropped_def placeDropped_def splice_insert_def splice_remove_def
  truthy_def Let_def toString.simps

section \<open>Identifiers of a sequence\<close>

lemma all_ids_Nil [simp]: "all_ids [] = []"
  by (simp add: all_ids_def)

lemma all_ids_Cons [simp]: "all_ids (n # list) = node_ids n @ all_ids list"
  by (simp add: all_ids_def)

lemma all_ids_append [simp]: "all_ids (xs @ ys) = all_ids xs @ all_ids ys"
  by (simp add: all_ids_def)

lemma with_children_same [simp]: "with_children n (children n) = n"
  by (cases n) simp_all

lemma node_id_with_children [simp]: "node_id (with_children n cs) = node_id n"
  by (cases n) (simp_all add: node_id_def)

lemma children_with_children_filter [simp]:
  "children (with_children n (filter P (children n))) = filter P (children n)"
  by (cases n) simp_all

lemma occurs_cases:
  assumes "i \<in> set (all_ids list)"
  shows "(\<exists>pre n post. list = pre @ n # post \<and> node_id n = i) \<or>
         (\<exists>pre n post cpre c cpost.
            list = pre @ n # post \<and> children n = cpre @ c # cpost \<and> node_id c = i)"
proof -
  from assms obtain n where n: "n \<in> set list" "i \<in> set (node_ids n)"
    by (auto simp: all_ids_def)
  from n(1) obtain pre post where l: "list = pre @ n # post"
    by (auto dest: split_list)
  show ?thesis
  proof (cases "node_id n = i")
    case True
    with l show ?thesis by blast
  next
    case False
    with n(2) have "i \<in> node_id ` set (children n)" by (auto simp: node_ids_def)
    then obtain c where "c \<in> set (children n)" "node_id c = i" by auto
    then obtain cpre cpost where "children n = cpre @ c # cpost" "node_id c = i"
      by (auto dest: split_list)
    with l show ?thesis by blast
  qed
qed

section \<open>Delete\<close>

lemma deleteRecursive_Nil [simp]: "deleteRecursive i [] = []"
  by (simp add: deleteRecursive_def)

lemma deleteRecursive_append:
  "deleteRecursive i (xs @ ys) = deleteRecursive i xs @ deleteRecursive i ys"
  by (simp add: deleteRecursive_def)

lemma deleteRecursive_Cons:
  "deleteRecursive i (n # list) =
     (if node_id n = i then deleteRecursive i list
      else with_children n (filter (\<lambda>c. node_id c \<noteq> i) (children n)) # deleteRecursive i list)"
  by (cases n) (simp_all add: deleteRecursive_def)

lemma filter_ids_absent: "i \<notin> set (map node_id cs) \<Longrightarrow> filter (\<lambda>c. node_id c \<noteq> i) cs = cs"
  by (induction cs) auto

lemma deleteRecursive_absent:
  "i \<notin> set (all_ids list) \<Longrightarrow> deleteRecursive i list = list"
proof (induction list)
  case Nil
  then show ?case by simp
next
  case (Cons n list)
  then have a: "node_id n \<noteq> i" "i \<notin> set (map node_id (children n))" "i \<notin> set (all_ids list)"
    by (auto simp: node_ids_def)
  show ?case
    using Cons.IH [OF a(3)] a(1) filter_ids_absent [OF a(2)]
    by (simp add: deleteRecursive_Cons)
qed

lemma deleteRecursive_gone: "i \<notin> set (all_ids (deleteRecursive i list))"
  by (induction list) (auto simp: deleteRecursive_Cons node_ids_def)

lemma deleteRecursive_idem:
  "deleteRecursive i (deleteRecursive i list) = deleteRecursive i list"
  by (rule deleteRecursive_absent) (rule deleteRecursive_gone)

lemma removed_count_absent: "i \<notin> set (all_ids list) \<Longrightarrow> removed_count i list = 0"
  by (induction list) (auto simp: removed_count_def node_ids_def filter_empty_conv)

lemma removed_count_append:
  "removed_count i (xs @ ys) = removed_count i xs + removed_count i ys"
  by (simp add: removed_count_def)

lemma deleteRecursive_top:
  assumes "distinct (all_ids (pre @ n # post))" "node_id n = i"
  shows "deleteRecursive i (pre @ n # post) = pre @ post"
proof -
  have "i \<notin> set (all_ids pre)" "i \<notin> set (all_ids post)"
    using assms by (auto simp: node_ids_def)
  then show ?thesis
    using assms(2) by (simp add: deleteRecursive_append deleteRecursive_Cons deleteRecursive_absent)
qed

lemma child_split_facts:
  assumes "distinct (all_ids (pre @ n # post))" "children n = cpre @ c # cpost" "node_id c = i"
  shows "i \<notin> set (all_ids pre)" "i \<notin> set (all_ids post)" "node_id n \<noteq> i"
    "i \<notin> node_id ` set cpre" "i \<notin> node_id ` set cpost"
proof -
  have d: "distinct (node_ids n)" "set (node_ids n) \<inter> set (all_ids pre) = {}"
     "set (node_ids n) \<inter> set (all_ids post) = {}"
    using assms(1) by auto
  have m: "i \<in> set (node_ids n)"
    using assms(2,3) by (auto simp: node_ids_def)
  show "i \<notin> set (all_ids pre)" "i \<notin> set (all_ids post)"
    using d m by auto
  show "node_id n \<noteq> i" "i \<notin> node_id ` set cpre" "i \<notin> node_id ` set cpost"
    using d(1) assms(2,3) by (auto simp: node_ids_def)
qed

lemma deleteRecursive_child:
  assumes "distinct (all_ids (pre @ n # post))" "children n = cpre @ c # cpost" "node_id c = i"
  shows "deleteRecursive i (pre @ n # post) = pre @ with_children n (cpre @ cpost) # post"
  using child_split_facts [OF assms] assms(2,3)
  by (simp add: deleteRecursive_append deleteRecursive_Cons deleteRecursive_absent filter_ids_absent)

lemma removed_count_top:
  assumes "distinct (all_ids (pre @ n # post))" "node_id n = i"
  shows "removed_count i (pre @ n # post) = 1"
proof -
  have "i \<notin> set (all_ids pre)" "i \<notin> set (all_ids post)"
    using assms by (auto simp: node_ids_def)
  then have "removed_count i pre = 0" "removed_count i post = 0"
    by (simp_all add: removed_count_absent)
  moreover have "removed_count i [n] = 1"
    using assms(2) by (simp add: removed_count_def)
  ultimately show ?thesis
    using removed_count_append [of i pre "[n] @ post"] removed_count_append [of i "[n]" post]
    by simp
qed

lemma removed_count_child:
  assumes "distinct (all_ids (pre @ n # post))" "children n = cpre @ c # cpost" "node_id c = i"
  shows "removed_count i (pre @ n # post) = 1"
proof -
  note f = child_split_facts [OF assms]
  have z: "removed_count i pre = 0" "removed_count i post = 0"
    using f(1,2) by (simp_all add: removed_count_absent)
  have "\<forall>x\<in>set cpre. node_id x \<noteq> i" "\<forall>x\<in>set cpost. node_id x \<noteq> i"
    using f(4,5) by blast+
  with f(3) have "removed_count i [n] = 1"
    using assms(2,3) by (simp add: removed_count_def filter_empty_conv)
  then show ?thesis
    using z removed_count_append [of i pre "[n] @ post"] removed_count_append [of i "[n]" post]
    by simp
qed

text \<open>
  C2. On a sequence whose identifiers are pairwise distinct across the top level and the
  nested arrays, the delete operation drops exactly one array element when the
  identifier occurs anywhere in the tree: either one element of the top level (the node
  leaves with its own nested array), or one element of the nested array of one branch or
  block; every other element, at both levels, stays where and as it was. When the
  identifier does not occur, nothing is dropped and the sequence is the same. After the
  operation the identifier occurs nowhere, and a second application with the same
  identifier gives the same state.
\<close>

theorem delete_removes_exactly_one:
  assumes "distinct (all_ids (nodes s))"
  shows "(i \<in> set (all_ids (nodes s)) \<longrightarrow>
            removed_count i (nodes s) = 1 \<and>
            ((\<exists>pre n post. nodes s = pre @ n # post \<and> node_id n = i \<and>
                 nodes (handleDeleteNode i s) = pre @ post) \<or>
             (\<exists>pre n post cpre c cpost.
                 nodes s = pre @ n # post \<and> children n = cpre @ c # cpost \<and> node_id c = i \<and>
                 nodes (handleDeleteNode i s) = pre @ with_children n (cpre @ cpost) # post))) \<and>
         (i \<notin> set (all_ids (nodes s)) \<longrightarrow>
            removed_count i (nodes s) = 0 \<and> nodes (handleDeleteNode i s) = nodes s) \<and>
         i \<notin> set (all_ids (nodes (handleDeleteNode i s))) \<and>
         handleDeleteNode i (handleDeleteNode i s) = handleDeleteNode i s"
proof -
  have n: "nodes (handleDeleteNode i s) = deleteRecursive i (nodes s)"
    by (simp add: handleDeleteNode_def)
  have idem: "handleDeleteNode i (handleDeleteNode i s) = handleDeleteNode i s"
    by (simp add: handleDeleteNode_def deleteRecursive_idem)
  have gone: "i \<notin> set (all_ids (nodes (handleDeleteNode i s)))"
    by (simp add: n deleteRecursive_gone)
  have absent: "i \<notin> set (all_ids (nodes s)) \<longrightarrow>
            removed_count i (nodes s) = 0 \<and> nodes (handleDeleteNode i s) = nodes s"
    by (simp add: n deleteRecursive_absent removed_count_absent)
  have present: "removed_count i (nodes s) = 1 \<and>
            ((\<exists>pre n post. nodes s = pre @ n # post \<and> node_id n = i \<and>
                 nodes (handleDeleteNode i s) = pre @ post) \<or>
             (\<exists>pre n post cpre c cpost.
                 nodes s = pre @ n # post \<and> children n = cpre @ c # cpost \<and> node_id c = i \<and>
                 nodes (handleDeleteNode i s) = pre @ with_children n (cpre @ cpost) # post))"
    if occ: "i \<in> set (all_ids (nodes s))"
  proof -
    from occurs_cases [OF occ] show ?thesis
    proof
      assume "\<exists>pre n post. nodes s = pre @ n # post \<and> node_id n = i"
      then obtain pre m post where l: "nodes s = pre @ m # post" "node_id m = i" by blast
      have "deleteRecursive i (nodes s) = pre @ post" "removed_count i (nodes s) = 1"
        using assms l deleteRecursive_top [of pre m post i] removed_count_top [of pre m post i]
        by simp_all
      with l n show ?thesis by metis
    next
      assume "\<exists>pre n post cpre c cpost.
                nodes s = pre @ n # post \<and> children n = cpre @ c # cpost \<and> node_id c = i"
      then obtain pre m post cpre c cpost where
        l: "nodes s = pre @ m # post" "children m = cpre @ c # cpost" "node_id c = i" by blast
      have "deleteRecursive i (nodes s) = pre @ with_children m (cpre @ cpost) # post"
           "removed_count i (nodes s) = 1"
        using assms l deleteRecursive_child [of pre m post cpre c cpost i]
          removed_count_child [of pre m post cpre c cpost i]
        by simp_all
      with l n show ?thesis by metis
    qed
  qed
  show ?thesis
    using present absent gone idem by blast
qed

theorem delete_removes_exactly_one_witness:
  "distinct (all_ids (nodes ex_state)) \<and>
   ''2a'' \<in> set (all_ids (nodes ex_state)) \<and>
   removed_count ''2a'' (nodes ex_state) = 1 \<and>
   nodes (handleDeleteNode ''2a'' ex_state) =
     [SingleNode Time (mk_base ''1''),
      BranchNode (mk_base ''2'') [SingleNode Task (mk_base ''2b'')],
      BlockNode (mk_base ''block_1'') [SingleNode Time (mk_base ''side_1'')] None None,
      SingleNode Task (mk_base ''task_lunch'')] \<and>
   ''2a'' \<notin> set (all_ids (nodes (handleDeleteNode ''2a'' ex_state))) \<and>
   handleDeleteNode ''2a'' (handleDeleteNode ''2a'' ex_state) = handleDeleteNode ''2a'' ex_state"
proof -
  have h: "distinct (all_ids (nodes ex_state))"
    by (simp add: ex_state_def ex_nodes_def node_ids_def node_id_def mk_base_def)
  have o: "''2a'' \<in> set (all_ids (nodes ex_state))"
    by (simp add: ex_state_def ex_nodes_def node_ids_def node_id_def mk_base_def)
  have r: "nodes (handleDeleteNode ''2a'' ex_state) =
     [SingleNode Time (mk_base ''1''),
      BranchNode (mk_base ''2'') [SingleNode Task (mk_base ''2b'')],
      BlockNode (mk_base ''block_1'') [SingleNode Time (mk_base ''side_1'')] None None,
      SingleNode Task (mk_base ''task_lunch'')]"
    by (simp add: handleDeleteNode_def deleteRecursive_def ex_state_def ex_nodes_def
        node_id_def mk_base_def)
  show ?thesis
    using h o r delete_removes_exactly_one [OF h, of "''2a''"] by blast
qed

section \<open>Uniqueness of identifiers\<close>

lemma findIndex_Some:
  "findIndex P xs = Some k \<Longrightarrow> k < length xs \<and> P (xs ! k) \<and> (\<forall>j<k. \<not> P (xs ! j))"
proof (induction xs arbitrary: k)
  case Nil
  then show ?case by simp
next
  case (Cons x xs)
  show ?case
  proof (cases "P x")
    case True
    with Cons.prems show ?thesis by simp
  next
    case False
    with Cons.prems obtain k' where k: "findIndex P xs = Some k'" "k = Suc k'"
      by auto
    from Cons.IH [OF k(1)] False k(2) show ?thesis
      by (auto simp: nth_Cons split: nat.splits)
  qed
qed

lemma findIndex_None: "findIndex P xs = None \<longleftrightarrow> (\<forall>x\<in>set xs. \<not> P x)"
  by (induction xs) auto

lemma findIndex_split:
  assumes "findIndex P xs = Some k"
  shows "xs = take k xs @ (xs ! k) # drop (Suc k) xs \<and> P (xs ! k) \<and> (\<forall>x\<in>set (take k xs). \<not> P x)"
proof -
  from findIndex_Some [OF assms] have k: "k < length xs" "P (xs ! k)" "\<forall>j<k. \<not> P (xs ! j)"
    by auto
  have "\<forall>x\<in>set (take k xs). \<not> P x"
    using k(1,3) by (auto simp: in_set_conv_nth)
  with k show ?thesis by (simp add: id_take_nth_drop [symmetric])
qed

lemma mset_all_ids_insert:
  "mset (all_ids (splice_insert k n list)) = mset (node_ids n) + mset (all_ids list)"
proof -
  have "all_ids list = all_ids (take k list) @ all_ids (drop k list)"
    by (metis all_ids_append append_take_drop_id)
  then show ?thesis by (simp add: splice_insert_def)
qed

lemma mset_all_ids_snoc:
  "mset (all_ids (list @ [n])) = mset (node_ids n) + mset (all_ids list)"
  by simp

lemma mset_all_ids_remove:
  assumes "k < length list"
  shows "mset (all_ids list) = mset (node_ids (list ! k)) + mset (all_ids (splice_remove k list))"
proof -
  have "all_ids list = all_ids (take k list) @ node_ids (list ! k) @ all_ids (drop (Suc k) list)"
    using id_take_nth_drop [OF assms] by (metis all_ids_append all_ids_Cons)
  then show ?thesis by (simp add: splice_remove_def)
qed

lemma mset_all_ids_place:
  "mset (all_ids (placeDropped targetId position n list)) = mset (node_ids n) + mset (all_ids list)"
  by (simp add: placeDropped_def mset_all_ids_insert split: option.splits)

lemma distinct_createNode: "distinct (node_ids (createNode ty now))"
  by (cases ty) (simp_all add: createNode_def node_ids_def node_id_def Let_def)

lemma fresh_insert:
  assumes "distinct (all_ids list)" "fresh_for n list" "distinct (node_ids n)"
    "mset (all_ids list') = mset (node_ids n) + mset (all_ids list)"
  shows "distinct (all_ids list')"
proof -
  have "distinct (node_ids n @ all_ids list)"
    using assms(1-3) by (auto simp: fresh_for_def list_all_iff)
  moreover have "mset (all_ids list') = mset (node_ids n @ all_ids list)"
    using assms(4) by simp
  ultimately show ?thesis
    using mset_eq_imp_distinct_iff by blast
qed

lemma distinct_handleAddNode:
  assumes "distinct (all_ids (nodes s))" "fresh_for (createNode ty now) (nodes s)"
  shows "distinct (all_ids (nodes (handleAddNode ty now s)))"
proof -
  have "mset (all_ids (nodes (handleAddNode ty now s))) =
        mset (node_ids (createNode ty now)) + mset (all_ids (nodes s))"
    by (simp add: handleAddNode_def Let_def mset_all_ids_insert split: option.splits)
  with assms distinct_createNode show ?thesis
    by (rule fresh_insert)
qed

lemma pickDropped_canvas:
  assumes "pickDropped d now list = Some (rest, n)" "drag_source d \<noteq> ''sidebar''"
  shows "mset (all_ids list) = mset (node_ids n) + mset (all_ids rest)"
proof -
  from assms obtain k where k: "findIndex (\<lambda>n. Some (node_id n) = drag_id d) list = Some k"
    "rest = splice_remove k list" "n = list ! k"
    by (auto simp: pickDropped_def split: if_splits option.splits)
  from findIndex_Some [OF k(1)] have "k < length list" by simp
  from mset_all_ids_remove [OF this] k show ?thesis by simp
qed

lemma distinct_handleDropNode:
  assumes "distinct (all_ids (nodes s))"
    "drag_source d = ''sidebar'' \<longrightarrow> fresh_for (createNode (drag_type d) now) (nodes s)"
  shows "distinct (all_ids (nodes (handleDropNode d targetId position now s)))"
proof (cases "drag_id d \<noteq> None \<and> drag_id d = targetId")
  case True
  then have "handleDropNode d targetId position now s = s"
    unfolding handleDropNode_def by (rule if_P)
  with assms(1) show ?thesis by simp
next
  case False
  show ?thesis
  proof (cases "pickDropped d now (nodes s)")
    case None
    with False assms(1) show ?thesis by (auto simp: handleDropNode_def)
  next
    case (Some p)
    obtain rest n where p: "p = (rest, n)" by (cases p)
    have r: "nodes (handleDropNode d targetId position now s) = placeDropped targetId position n rest"
      using False Some p by (auto simp: handleDropNode_def)
    have m: "mset (all_ids (nodes (handleDropNode d targetId position now s))) =
             mset (node_ids n) + mset (all_ids rest)"
      by (simp add: r mset_all_ids_place)
    show ?thesis
    proof (cases "drag_source d = ''sidebar''")
      case True
      with Some p have e: "rest = nodes s" "n = createNode (drag_type d) now"
        by (simp_all add: pickDropped_def)
      from assms True have "fresh_for (createNode (drag_type d) now) (nodes s)" by simp
      with assms(1) show ?thesis
        using distinct_createNode m unfolding e by (rule fresh_insert)
    next
      case False
      from pickDropped_canvas [OF _ False] Some p
      have "mset (all_ids (nodes s)) = mset (node_ids n) + mset (all_ids rest)" by simp
      with m have "mset (all_ids (nodes (handleDropNode d targetId position now s))) =
                   mset (all_ids (nodes s))" by simp
      with assms(1) show ?thesis
        using mset_eq_imp_distinct_iff by blast
    qed
  qed
qed

lemma distinct_deleteRecursive:
  "distinct (all_ids list) \<Longrightarrow> distinct (all_ids (deleteRecursive i list))"
proof (induction list)
  case Nil
  then show ?case by simp
next
  case (Cons n list)
  have sub: "set (all_ids (deleteRecursive i list)) \<subseteq> set (all_ids list)" for list
    by (induction list) (auto simp: deleteRecursive_Cons node_ids_def)
  from Cons.prems have d: "distinct (node_ids n)" "distinct (all_ids list)"
    "set (node_ids n) \<inter> set (all_ids list) = {}" by auto
  have "distinct (node_ids (with_children n (filter (\<lambda>c. node_id c \<noteq> i) (children n))))"
    using d(1) by (auto simp: node_ids_def distinct_map_filter)
  moreover have "set (node_ids (with_children n (filter (\<lambda>c. node_id c \<noteq> i) (children n))))
      \<subseteq> set (node_ids n)"
    by (auto simp: node_ids_def)
  ultimately show ?case
    using Cons.IH [OF d(2)] d(3) sub [of list]
    by (auto simp: deleteRecursive_Cons)
qed

lemma node_id_updateChild [simp]: "node_id (fst (updateChild u b)) = node_id b"
  by (simp add: updateChild_def)

lemma updateTop_match: "node_id n = node_id u \<Longrightarrow> fst (updateTop u n) = u"
  by (cases n) simp_all

lemma node_ids_updateTop:
  "node_id n \<noteq> node_id u \<Longrightarrow> node_ids (fst (updateTop u n)) = node_ids n"
  by (cases n) (simp_all add: node_ids_def node_id_def updateChild_def comp_def)

lemma updateRecursive_append:
  "updateRecursive u (xs @ ys) = updateRecursive u xs @ updateRecursive u ys"
  by (simp add: updateRecursive_def)

lemma all_ids_update_nomatch:
  "\<forall>n\<in>set list. node_id n \<noteq> node_id u \<Longrightarrow> all_ids (updateRecursive u list) = all_ids list"
  by (induction list) (simp_all add: updateRecursive_def node_ids_updateTop)

lemma top_ids_subset: "node_id ` set list \<subseteq> set (all_ids list)"
  by (induction list) (auto simp: node_ids_def)

lemma distinct_updateRecursive:
  assumes "distinct (all_ids list)" "update_fresh u list"
  shows "distinct (all_ids (updateRecursive u list))"
proof (cases "\<exists>n\<in>set list. node_id n = node_id u")
  case False
  then show ?thesis using assms(1) by (simp add: all_ids_update_nomatch)
next
  case True
  then obtain n where n: "n \<in> set list" "node_id n = node_id u" by blast
  then obtain pre post where l: "list = pre @ n # post" by (auto dest: split_list)
  have out: "node_id u \<notin> set (all_ids pre)" "node_id u \<notin> set (all_ids post)"
    using assms(1) n(2) unfolding l by (auto simp: node_ids_def)
  have nm: "\<forall>m\<in>set pre. node_id m \<noteq> node_id u" "\<forall>m\<in>set post. node_id m \<noteq> node_id u"
    using out top_ids_subset [of pre] top_ids_subset [of post] by auto
  have others: "filter (\<lambda>m. node_id m \<noteq> node_id u) list = pre @ post"
    using nm n(2) unfolding l by (simp add: filter_id_conv)
  have ex: "list_ex (\<lambda>n. node_id n = node_id u) list"
    using True by (simp add: list_ex_iff)
  from assms(2) ex others have g: "distinct (node_ids u)"
    "\<forall>i\<in>set (map node_id (children u)). i \<notin> set (all_ids (pre @ post))"
    by (simp_all add: update_fresh_def list_all_iff)
  have r1: "updateRecursive u list = updateRecursive u pre @ u # updateRecursive u post"
    unfolding l using n(2) by (simp add: updateRecursive_def updateTop_match)
  have r: "all_ids (updateRecursive u list) = all_ids pre @ node_ids u @ all_ids post"
    using nm by (simp add: r1 all_ids_update_nomatch)
  have d: "distinct (all_ids pre)" "distinct (all_ids post)"
    "set (all_ids pre) \<inter> set (all_ids post) = {}"
    using assms(1) unfolding l by auto
  have fr: "set (node_ids u) \<inter> set (all_ids pre) = {}" "set (node_ids u) \<inter> set (all_ids post) = {}"
    using g(2) out by (auto simp: node_ids_def)
  show ?thesis
    unfolding r using d g(1) fr by auto
qed

lemma op_preserves_distinct:
  assumes "distinct (all_ids (nodes s))" "op_fresh s op"
  shows "distinct (all_ids (nodes (applyOp op s)))"
proof (cases op)
  case (AddNode ty now)
  with assms show ?thesis by (simp add: distinct_handleAddNode)
next
  case (DropNode d targetId position now)
  with assms show ?thesis by (simp add: distinct_handleDropNode)
next
  case (UpdateNode u)
  with assms show ?thesis by (simp add: handleUpdateNode_def distinct_updateRecursive)
next
  case (DeleteNode i)
  with assms show ?thesis by (simp add: handleDeleteNode_def distinct_deleteRecursive)
qed

text \<open>
  C1, as the code has it. Starting from pairwise distinct identifiers (top level and
  nested arrays combined), every finite composition of handleAddNode, handleDropNode,
  handleUpdateNode and handleDeleteNode ends with pairwise distinct identifiers, provided
  that each node made by createNode (for handleAddNode and for a sidebar drop) brings
  identifiers that are not in the sequence yet, and that each replacement given to
  handleUpdateNode for a top-level node brings pairwise distinct identifiers whose nested
  ones occur nowhere else in the sequence. handleDeleteNode and a move from the canvas
  keep the identifiers distinct with no condition.
\<close>

theorem unique_ids_preserved:
  "distinct (all_ids (nodes s)) \<Longrightarrow> ops_fresh s ops \<Longrightarrow> distinct (all_ids (nodes (runOps ops s)))"
proof (induction ops arbitrary: s)
  case Nil
  then show ?case by simp
next
  case (Cons op ops)
  from Cons.prems have "op_fresh s op" "ops_fresh (applyOp op s) ops" by simp_all
  with Cons.prems(1) have "distinct (all_ids (nodes (applyOp op s)))"
    by (simp add: op_preserves_distinct)
  with Cons.IH \<open>ops_fresh (applyOp op s) ops\<close> show ?case by simp
qed

theorem unique_ids_preserved_witness:
  "distinct (all_ids (nodes ex_state)) \<and> ops_fresh ex_state ex_ops \<and>
   all_ids (nodes (runOps ex_ops ex_state)) =
     [''1730000001000'', ''2'', ''2b'', ''block_1'', ''side_1'', ''block_1_side_1730000002000'',
      ''1'', ''task_lunch'', ''1730000000000'', ''1730000000000_1'', ''1730000000000_2''] \<and>
   distinct (all_ids (nodes (runOps ex_ops ex_state)))"
proof -
  have h: "distinct (all_ids (nodes ex_state))"
    by (simp add: ex_state_def ex_nodes_def node_ids_def node_id_def mk_base_def)
  have g: "ops_fresh ex_state ex_ops"
    by (simp add: ex_ops_def ev_defs)
  have r: "all_ids (nodes (runOps ex_ops ex_state)) =
     [''1730000001000'', ''2'', ''2b'', ''block_1'', ''side_1'', ''block_1_side_1730000002000'',
      ''1'', ''task_lunch'', ''1730000000000'', ''1730000000000_1'', ''1730000000000_2'']"
    by (simp add: ex_ops_def ev_defs)
  show ?thesis
    using h g r unique_ids_preserved [OF h g] by blast
qed

text \<open>
  C1 as stated fails: nothing in the operations checks an identifier against the
  sequence. Two nodes added at the same reading of the clock share one identifier, and
  a replacement block whose two new side events were made at the same reading of the
  clock carries one identifier twice.
\<close>

theorem unique_ids_counterexample:
  "distinct (all_ids (nodes ex_state)) \<and>
   \<not> distinct (all_ids (nodes (runOps
        [AddNode (Leaf Task) 1730000000000, AddNode (Leaf Task) 1730000000000] ex_state))) \<and>
   \<not> distinct (all_ids (nodes (runOps
        [UpdateNode (BlockNode (mk_base ''block_1'')
           [SingleNode Time (mk_base ''side_1''),
            SingleNode Task (mk_base ''block_1_side_1730000002000''),
            SingleNode Task (mk_base ''block_1_side_1730000002000'')]
           None None)] ex_state)))"
  by (simp add: ev_defs)

section \<open>Insert and move\<close>

lemma handleDropNode_nodes:
  assumes "\<not> (drag_id d \<noteq> None \<and> drag_id d = targetId)"
    "pickDropped d now (nodes s) = Some (rest, n)"
  shows "nodes (handleDropNode d targetId position now s) = placeDropped targetId position n rest"
  using assms by (auto simp: handleDropNode_def)

lemma pickDropped_sidebar:
  assumes "pickDropped d now list = Some (rest, n)" "drag_source d = ''sidebar''"
  shows "rest = list \<and> n = createNode (drag_type d) now"
  using assms by (simp add: pickDropped_def)

lemma pickDropped_moved:
  assumes "pickDropped d now list = Some (rest, n)" "drag_source d \<noteq> ''sidebar''"
  shows "drag_source d = ''canvas'' \<and>
         (\<exists>pre post. list = pre @ n # post \<and> rest = pre @ post \<and> Some (node_id n) = drag_id d \<and>
            (\<forall>m\<in>set pre. Some (node_id m) \<noteq> drag_id d))"
proof -
  from assms obtain k where k: "findIndex (\<lambda>n. Some (node_id n) = drag_id d) list = Some k"
    "rest = splice_remove k list" "n = list ! k" and c: "drag_source d = ''canvas''"
    by (auto simp: pickDropped_def split: if_splits option.splits)
  from findIndex_split [OF k(1)] k(2,3)
  have "list = take k list @ n # drop (Suc k) list \<and> rest = take k list @ drop (Suc k) list \<and>
        Some (node_id n) = drag_id d \<and> (\<forall>m\<in>set (take k list). Some (node_id m) \<noteq> drag_id d)"
    by (simp add: splice_remove_def)
  with c show ?thesis by blast
qed

lemma placeDropped_last:
  assumes "position = Append \<or> \<not> truthy targetId \<or> \<not> (\<exists>m\<in>set rest. Some (node_id m) = targetId)"
  shows "placeDropped targetId position n rest = rest @ [n]"
proof (cases "position = Append \<or> \<not> truthy targetId")
  case True
  then show ?thesis by (auto simp: placeDropped_def)
next
  case False
  with assms have "\<forall>m\<in>set rest. Some (node_id m) \<noteq> targetId" by blast
  then have "findIndex (\<lambda>n. Some (node_id n) = targetId) rest = None"
    by (simp add: findIndex_None)
  then show ?thesis by (simp add: placeDropped_def)
qed

lemma placeDropped_anchor:
  assumes "position \<noteq> Append" "truthy targetId" "\<exists>m\<in>set rest. Some (node_id m) = targetId"
  shows "\<exists>pre anchor post. rest = pre @ anchor # post \<and> Some (node_id anchor) = targetId \<and>
           (\<forall>m\<in>set pre. Some (node_id m) \<noteq> targetId) \<and>
           placeDropped targetId position n rest =
             (if position = Before then pre @ n # anchor # post else pre @ anchor # n # post)"
proof -
  from assms(3) obtain k where k: "findIndex (\<lambda>n. Some (node_id n) = targetId) rest = Some k"
    by (cases "findIndex (\<lambda>n. Some (node_id n) = targetId) rest") (auto simp: findIndex_None)
  from findIndex_Some [OF k] have kl: "k < length rest" by simp
  from findIndex_split [OF k]
  have sp: "rest = take k rest @ (rest ! k) # drop (Suc k) rest"
    "Some (node_id (rest ! k)) = targetId"
    "\<forall>m\<in>set (take k rest). Some (node_id m) \<noteq> targetId" by simp_all
  have b: "splice_insert k n rest = take k rest @ n # (rest ! k) # drop (Suc k) rest"
    using kl by (simp add: splice_insert_def Cons_nth_drop_Suc)
  have a: "splice_insert (k + 1) n rest = take k rest @ (rest ! k) # n # drop (Suc k) rest"
    using kl by (simp add: splice_insert_def take_Suc_conv_app_nth)
  have "placeDropped targetId position n rest =
          (if position = Before then take k rest @ n # (rest ! k) # drop (Suc k) rest
           else take k rest @ (rest ! k) # n # drop (Suc k) rest)"
    using assms(1,2) k a b by (simp add: placeDropped_def)
  with sp show ?thesis by blast
qed

lemma findIndex_first:
  "P x \<Longrightarrow> \<forall>m\<in>set pre. \<not> P m \<Longrightarrow> findIndex P (pre @ x # post) = Some (length pre)"
  by (induction pre) simp_all

lemma pickDropped_accepts:
  assumes "drag_source d = ''sidebar'' \<or>
           (drag_source d = ''canvas'' \<and> (\<exists>m\<in>set list. Some (node_id m) = drag_id d))"
  shows "\<exists>rest n. pickDropped d now list = Some (rest, n)"
proof (cases "drag_source d = ''sidebar''")
  case True
  then show ?thesis by (simp add: pickDropped_def)
next
  case False
  with assms have c: "drag_source d = ''canvas''"
    and m: "\<exists>m\<in>set list. Some (node_id m) = drag_id d" by blast+
  from m obtain k where "findIndex (\<lambda>n. Some (node_id n) = drag_id d) list = Some k"
    by (cases "findIndex (\<lambda>n. Some (node_id n) = drag_id d) list") (auto simp: findIndex_None)
  with False c show ?thesis by (simp add: pickDropped_def)
qed

text \<open>
  What handleDrop passes to \<open>onDropNode\<close>: a target that is \<open>null\<close> or a non-empty
  string, and never the dragged id.
\<close>

lemma handleDrop_calls:
  assumes "snd (handleDrop dataTransfer c) = Some (OnDropNode d targetId position)"
  shows "(targetId = None \<or> truthy targetId) \<and> \<not> (drag_id d \<noteq> None \<and> drag_id d = targetId)"
  using assms
  by (auto simp: handleDrop_def Let_def truthy_def
      split: DataTransfer.splits if_splits option.splits)

text \<open>
  C4. A drop payload is sidebar-sourced, or canvas-sourced with its id at the top level
  (a move). The calls that handleDrop makes have a target that is \<open>null\<close> or not empty
  and different from the dragged id (\<open>handleDrop_calls\<close>); here it is enough that the
  dragged id is not the target id, and that the empty string is not at once the target
  and the id of a top-level node. Then the drop is carried out: the node to insert \<open>n\<close>
  is the new node of createNode for a sidebar payload, with \<open>rest\<close> the whole sequence;
  for a move it is the first top-level node with the dragged id, and \<open>rest\<close> is the
  sequence without it. With position \<open>before\<close> and a target id present at the top
  level, the result is \<open>rest\<close> with \<open>n\<close> immediately before the anchor, the first node
  with the target id; with \<open>after\<close>, immediately after it; with \<open>append\<close>, a \<open>null\<close>
  target, or a target id of no top-level node, the result is \<open>rest\<close> with \<open>n\<close> last.
\<close>

theorem drop_ordering:
  assumes "\<not> (drag_id d \<noteq> None \<and> drag_id d = targetId)"
      and "\<not> (targetId = Some [] \<and> (\<exists>m\<in>set (nodes s). node_id m = []))"
      and "drag_source d = ''sidebar'' \<or>
           (drag_source d = ''canvas'' \<and> (\<exists>m\<in>set (nodes s). Some (node_id m) = drag_id d))"
  shows
   "\<exists>rest n.
      (drag_source d = ''sidebar'' \<longrightarrow> rest = nodes s \<and> n = createNode (drag_type d) now) \<and>
      (drag_source d \<noteq> ''sidebar'' \<longrightarrow>
         (\<exists>pre post. nodes s = pre @ n # post \<and> rest = pre @ post \<and>
            Some (node_id n) = drag_id d \<and> (\<forall>m\<in>set pre. Some (node_id m) \<noteq> drag_id d))) \<and>
      (position = Before \<and> (\<exists>m\<in>set (nodes s). Some (node_id m) = targetId) \<longrightarrow>
         (\<exists>pre anchor post. rest = pre @ anchor # post \<and> Some (node_id anchor) = targetId \<and>
            (\<forall>m\<in>set pre. Some (node_id m) \<noteq> targetId) \<and>
            nodes (handleDropNode d targetId position now s) = pre @ n # anchor # post)) \<and>
      (position = After \<and> (\<exists>m\<in>set (nodes s). Some (node_id m) = targetId) \<longrightarrow>
         (\<exists>pre anchor post. rest = pre @ anchor # post \<and> Some (node_id anchor) = targetId \<and>
            (\<forall>m\<in>set pre. Some (node_id m) \<noteq> targetId) \<and>
            nodes (handleDropNode d targetId position now s) = pre @ anchor # n # post)) \<and>
      (position = Append \<or> targetId = None \<or>
         \<not> (\<exists>m\<in>set (nodes s). Some (node_id m) = targetId) \<longrightarrow>
         nodes (handleDropNode d targetId position now s) = rest @ [n])"
proof -
  from pickDropped_accepts [OF assms(3)] obtain rest n where
    p: "pickDropped d now (nodes s) = Some (rest, n)" by blast
  note r = handleDropNode_nodes [OF assms(1) p, of position]
  have same: "(\<exists>m\<in>set rest. Some (node_id m) = targetId) =
              (\<exists>m\<in>set (nodes s). Some (node_id m) = targetId)"
  proof (cases "drag_source d = ''sidebar''")
    case True
    with pickDropped_sidebar [OF p] show ?thesis by simp
  next
    case False
    from pickDropped_moved [OF p False] obtain pre post where
      m: "nodes s = pre @ n # post" "rest = pre @ post" "Some (node_id n) = drag_id d" by blast
    from m(3) assms(1) have "Some (node_id n) \<noteq> targetId" by auto
    with m(1,2) show ?thesis by auto
  qed
  have t: "truthy targetId" if "\<exists>m\<in>set (nodes s). Some (node_id m) = targetId"
    using that assms(2) by (auto simp: truthy_def)
  have 1: "drag_source d = ''sidebar'' \<longrightarrow> rest = nodes s \<and> n = createNode (drag_type d) now"
    using pickDropped_sidebar [OF p] by blast
  have 2: "drag_source d \<noteq> ''sidebar'' \<longrightarrow>
       (\<exists>pre post. nodes s = pre @ n # post \<and> rest = pre @ post \<and>
          Some (node_id n) = drag_id d \<and> (\<forall>m\<in>set pre. Some (node_id m) \<noteq> drag_id d))"
    using pickDropped_moved [OF p] by blast
  have 3: "position = Before \<and> (\<exists>m\<in>set (nodes s). Some (node_id m) = targetId) \<longrightarrow>
       (\<exists>pre anchor post. rest = pre @ anchor # post \<and> Some (node_id anchor) = targetId \<and>
          (\<forall>m\<in>set pre. Some (node_id m) \<noteq> targetId) \<and>
          nodes (handleDropNode d targetId position now s) = pre @ n # anchor # post)"
  proof
    assume a: "position = Before \<and> (\<exists>m\<in>set (nodes s). Some (node_id m) = targetId)"
    then have "position \<noteq> Append" "truthy targetId" "\<exists>m\<in>set rest. Some (node_id m) = targetId"
      using t same by simp_all
    from placeDropped_anchor [OF this, of n] a
    show "\<exists>pre anchor post. rest = pre @ anchor # post \<and> Some (node_id anchor) = targetId \<and>
          (\<forall>m\<in>set pre. Some (node_id m) \<noteq> targetId) \<and>
          nodes (handleDropNode d targetId position now s) = pre @ n # anchor # post"
      unfolding r by simp
  qed
  have 4: "position = After \<and> (\<exists>m\<in>set (nodes s). Some (node_id m) = targetId) \<longrightarrow>
       (\<exists>pre anchor post. rest = pre @ anchor # post \<and> Some (node_id anchor) = targetId \<and>
          (\<forall>m\<in>set pre. Some (node_id m) \<noteq> targetId) \<and>
          nodes (handleDropNode d targetId position now s) = pre @ anchor # n # post)"
  proof
    assume a: "position = After \<and> (\<exists>m\<in>set (nodes s). Some (node_id m) = targetId)"
    then have "position \<noteq> Append" "truthy targetId" "\<exists>m\<in>set rest. Some (node_id m) = targetId"
      using t same by simp_all
    from placeDropped_anchor [OF this, of n] a
    show "\<exists>pre anchor post. rest = pre @ anchor # post \<and> Some (node_id anchor) = targetId \<and>
          (\<forall>m\<in>set pre. Some (node_id m) \<noteq> targetId) \<and>
          nodes (handleDropNode d targetId position now s) = pre @ anchor # n # post"
      unfolding r by simp
  qed
  have 5: "position = Append \<or> targetId = None \<or>
         \<not> (\<exists>m\<in>set (nodes s). Some (node_id m) = targetId) \<longrightarrow>
         nodes (handleDropNode d targetId position now s) = rest @ [n]"
  proof
    assume "position = Append \<or> targetId = None \<or>
         \<not> (\<exists>m\<in>set (nodes s). Some (node_id m) = targetId)"
    then have "position = Append \<or> \<not> truthy targetId \<or>
         \<not> (\<exists>m\<in>set rest. Some (node_id m) = targetId)"
      unfolding same by (auto simp: truthy_def)
    from placeDropped_last [OF this]
    show "nodes (handleDropNode d targetId position now s) = rest @ [n]"
      unfolding r .
  qed
  from 1 2 3 4 5 show ?thesis by blast
qed

lemma drop_rejected:
  "(drag_id d \<noteq> None \<and> drag_id d = targetId) \<or> pickDropped d now (nodes s) = None \<Longrightarrow>
   handleDropNode d targetId position now s = s"
  by (auto simp: handleDropNode_def)

theorem drop_ordering_witness:
  "drag_source ex_tool = ''sidebar'' \<and> drag_id ex_tool = None \<and>
   (\<exists>pre anchor post.
      nodes ex_state = pre @ anchor # post \<and> node_id anchor = ''2'' \<and>
      nodes (handleDropNode ex_tool (Some ''2'') Before 1730000000000 ex_state) =
        pre @ createNode (Leaf Task) 1730000000000 # anchor # post) \<and>
   nodes (handleDropNode ex_tool (Some ''2'') Before 1730000000000 ex_state) =
     [SingleNode Time (mk_base ''1''),
      createNode (Leaf Task) 1730000000000,
      BranchNode (mk_base ''2'') [SingleNode Task (mk_base ''2a''), SingleNode Task (mk_base ''2b'')],
      BlockNode (mk_base ''block_1'') [SingleNode Time (mk_base ''side_1'')] None None,
      SingleNode Task (mk_base ''task_lunch'')] \<and>
   nodes (handleDropNode ex_tool None Append 1730000000000 ex_state) =
     nodes ex_state @ [createNode (Leaf Task) 1730000000000] \<and>
   drag_source ex_move = ''canvas'' \<and> drag_id ex_move = Some ''1'' \<and>
   (\<exists>pre anchor post.
      ex_rest = pre @ anchor # post \<and> node_id anchor = ''block_1'' \<and>
      nodes (handleDropNode ex_move (Some ''block_1'') After 0 ex_state) =
        pre @ anchor # SingleNode Time (mk_base ''1'') # post) \<and>
   nodes (handleDropNode ex_move (Some ''block_1'') After 0 ex_state) =
     [BranchNode (mk_base ''2'') [SingleNode Task (mk_base ''2a''), SingleNode Task (mk_base ''2b'')],
      BlockNode (mk_base ''block_1'') [SingleNode Time (mk_base ''side_1'')] None None,
      SingleNode Time (mk_base ''1''),
      SingleNode Task (mk_base ''task_lunch'')]"
proof -
  have tool: "drag_source ex_tool = ''sidebar''" "drag_id ex_tool = None"
    "drag_type ex_tool = Leaf Task"
    by (simp_all add: ex_tool_def)
  have move: "drag_source ex_move = ''canvas''" "drag_id ex_move = Some ''1''"
    "drag_source ex_move \<noteq> ''sidebar''"
    by (simp_all add: ex_move_def)
  have ids: "\<not> (\<exists>m\<in>set (nodes ex_state). node_id m = [])"
    "\<exists>m\<in>set (nodes ex_state). Some (node_id m) = Some ''2''"
    "\<exists>m\<in>set (nodes ex_state). Some (node_id m) = Some ''block_1''"
    "\<exists>m\<in>set (nodes ex_state). Some (node_id m) = Some ''1''"
    by (simp_all add: ex_state_def ex_nodes_def node_id_def mk_base_def)
  have a1: "\<not> (drag_id ex_tool \<noteq> None \<and> drag_id ex_tool = Some ''2'')"
    "\<not> (drag_id ex_tool \<noteq> None \<and> drag_id ex_tool = None)"
    "\<not> (drag_id ex_move \<noteq> None \<and> drag_id ex_move = Some ''block_1'')"
    by (simp_all add: tool move)
  have a2: "\<not> (Some ''2'' = Some [] \<and> (\<exists>m\<in>set (nodes ex_state). node_id m = []))"
    "\<not> (None = Some [] \<and> (\<exists>m\<in>set (nodes ex_state). node_id m = []))"
    "\<not> (Some ''block_1'' = Some [] \<and> (\<exists>m\<in>set (nodes ex_state). node_id m = []))"
    by simp_all
  have a3: "drag_source ex_tool = ''sidebar'' \<or>
      (drag_source ex_tool = ''canvas'' \<and> (\<exists>m\<in>set (nodes ex_state). Some (node_id m) = drag_id ex_tool))"
    "drag_source ex_move = ''sidebar'' \<or>
      (drag_source ex_move = ''canvas'' \<and> (\<exists>m\<in>set (nodes ex_state). Some (node_id m) = drag_id ex_move))"
    using tool(1) move(1,2) ids(4) by simp_all
  have b: "\<exists>pre anchor post.
      nodes ex_state = pre @ anchor # post \<and> node_id anchor = ''2'' \<and>
      nodes (handleDropNode ex_tool (Some ''2'') Before 1730000000000 ex_state) =
        pre @ createNode (Leaf Task) 1730000000000 # anchor # post"
  proof -
    from drop_ordering [OF a1(1) a2(1) a3(1), where position = Before and now = 1730000000000]
    obtain rest n where
      s: "drag_source ex_tool = ''sidebar'' \<longrightarrow>
            rest = nodes ex_state \<and> n = createNode (drag_type ex_tool) 1730000000000"
      and p: "Before = Before \<and> (\<exists>m\<in>set (nodes ex_state). Some (node_id m) = Some ''2'') \<longrightarrow>
         (\<exists>pre anchor post. rest = pre @ anchor # post \<and> Some (node_id anchor) = Some ''2'' \<and>
            (\<forall>m\<in>set pre. Some (node_id m) \<noteq> Some ''2'') \<and>
            nodes (handleDropNode ex_tool (Some ''2'') Before 1730000000000 ex_state) =
              pre @ n # anchor # post)"
      by blast
    from s tool have "rest = nodes ex_state" "n = createNode (Leaf Task) 1730000000000"
      by simp_all
    with p ids(2) show ?thesis by auto
  qed
  have l: "nodes (handleDropNode ex_tool None Append 1730000000000 ex_state) =
     nodes ex_state @ [createNode (Leaf Task) 1730000000000]"
  proof -
    from drop_ordering [OF a1(2) a2(2) a3(1), where position = Append and now = 1730000000000]
    obtain rest n where
      s: "drag_source ex_tool = ''sidebar'' \<longrightarrow>
            rest = nodes ex_state \<and> n = createNode (drag_type ex_tool) 1730000000000"
      and p: "Append = Append \<or> (None :: string option) = None \<or>
            \<not> (\<exists>m\<in>set (nodes ex_state). Some (node_id m) = None) \<longrightarrow>
         nodes (handleDropNode ex_tool None Append 1730000000000 ex_state) = rest @ [n]"
      by blast
    from s tool have "rest = nodes ex_state" "n = createNode (Leaf Task) 1730000000000"
      by simp_all
    with p show ?thesis by simp
  qed
  have c: "\<exists>pre anchor post.
      ex_rest = pre @ anchor # post \<and> node_id anchor = ''block_1'' \<and>
      nodes (handleDropNode ex_move (Some ''block_1'') After 0 ex_state) =
        pre @ anchor # SingleNode Time (mk_base ''1'') # post"
  proof -
    from drop_ordering [OF a1(3) a2(3) a3(2), where position = After and now = 0]
    obtain rest n where
      s: "drag_source ex_move \<noteq> ''sidebar'' \<longrightarrow>
         (\<exists>pre post. nodes ex_state = pre @ n # post \<and> rest = pre @ post \<and>
            Some (node_id n) = drag_id ex_move \<and>
            (\<forall>m\<in>set pre. Some (node_id m) \<noteq> drag_id ex_move))"
      and p: "After = After \<and> (\<exists>m\<in>set (nodes ex_state). Some (node_id m) = Some ''block_1'') \<longrightarrow>
         (\<exists>pre anchor post. rest = pre @ anchor # post \<and> Some (node_id anchor) = Some ''block_1'' \<and>
            (\<forall>m\<in>set pre. Some (node_id m) \<noteq> Some ''block_1'') \<and>
            nodes (handleDropNode ex_move (Some ''block_1'') After 0 ex_state) =
              pre @ anchor # n # post)"
      by blast
    from s move obtain pre post where
      m: "nodes ex_state = pre @ n # post" "rest = pre @ post"
        "\<forall>m\<in>set pre. node_id m \<noteq> ''1''"
      by auto
    have "pre = []"
    proof (cases pre)
      case Nil
      then show ?thesis .
    next
      case (Cons x xs)
      with m(1) have "x = SingleNode Time (mk_base ''1'')"
        by (simp add: ex_state_def ex_nodes_def)
      with m(3) Cons show ?thesis
        by (simp add: node_id_def mk_base_def)
    qed
    with m(1,2) have "n = SingleNode Time (mk_base ''1'')" "rest = ex_rest"
      by (simp_all add: ex_state_def ex_nodes_def ex_rest_def)
    with p ids(3) show ?thesis by auto
  qed
  have r1: "nodes (handleDropNode ex_tool (Some ''2'') Before 1730000000000 ex_state) =
     [SingleNode Time (mk_base ''1''),
      createNode (Leaf Task) 1730000000000,
      BranchNode (mk_base ''2'') [SingleNode Task (mk_base ''2a''), SingleNode Task (mk_base ''2b'')],
      BlockNode (mk_base ''block_1'') [SingleNode Time (mk_base ''side_1'')] None None,
      SingleNode Task (mk_base ''task_lunch'')]"
    by (simp add: ex_tool_def ev_defs)
  have r2: "nodes (handleDropNode ex_move (Some ''block_1'') After 0 ex_state) =
     [BranchNode (mk_base ''2'') [SingleNode Task (mk_base ''2a''), SingleNode Task (mk_base ''2b'')],
      BlockNode (mk_base ''block_1'') [SingleNode Time (mk_base ''side_1'')] None None,
      SingleNode Time (mk_base ''1''),
      SingleNode Task (mk_base ''task_lunch'')]"
    by (simp add: ex_move_def ev_defs)
  show ?thesis
    by (intro conjI) (rule tool(1), rule tool(2), rule b, rule r1, rule l, rule move(1),
        rule move(2), rule c, rule r2)
qed

text \<open>
  The second hypothesis is used: with the empty string as the target and as the id of
  a top-level node, \<open>!targetId\<close> holds and the node is placed last.
\<close>

lemma drop_empty_target:
  "nodes (handleDropNode ex_tool (Some '''') Before 1730000000000
            (ex_state\<lparr>nodes := [SingleNode Task (mk_base '''')]\<rparr>)) =
     [SingleNode Task (mk_base ''''), createNode (Leaf Task) 1730000000000]"
  by (simp add: ex_tool_def ev_defs)

section \<open>Update\<close>

lemma updateTop_cases:
  "(node_id n = node_id u \<longrightarrow> updateTop u n = (u, Replacement)) \<and>
   (node_id n \<noteq> node_id u \<and> (\<forall>c\<in>set (children n). node_id c \<noteq> node_id u) \<longrightarrow>
      updateTop u n = (n, Kept)) \<and>
   (node_id n \<noteq> node_id u \<and> (\<exists>c\<in>set (children n). node_id c = node_id u) \<longrightarrow>
      updateTop u n =
        (with_children n (map (fst \<circ> updateChild u) (children n)),
         Copy (map (snd \<circ> updateChild u) (children n))))"
  by (cases n) (auto simp: list_ex_iff)

text \<open>
  C5. handleUpdateNode changes only the node whose id is that of the replacement \<open>u\<close>.
  The result has the length of the input, and at each top-level index: a node with the
  id of \<open>u\<close> is replaced by \<open>u\<close>; a node with another id and no nested child with the
  id of \<open>u\<close> is returned as it is, the very object of the input (\<open>Kept\<close>); a branch or
  block with another id and a nested child with the id of \<open>u\<close> is a new object that
  differs from the old one in the nested array only, and in that array every child with
  another id is the very object of the input (\<open>Kept\<close>), every child with the id of \<open>u\<close>
  is \<open>u\<close>. This holds for every sequence, with unique identifiers or not.
\<close>

theorem update_frame:
  "nodes (handleUpdateNode u s) = updateRecursive u (nodes s) \<and>
   length (updateRecursive u (nodes s)) = length (nodes s) \<and>
   length (updateProvenance u (nodes s)) = length (nodes s) \<and>
   (\<forall>k<length (nodes s).
      (node_id (nodes s ! k) = node_id u \<longrightarrow>
         updateRecursive u (nodes s) ! k = u \<and> updateProvenance u (nodes s) ! k = Replacement) \<and>
      (node_id (nodes s ! k) \<noteq> node_id u \<and>
       (\<forall>c\<in>set (children (nodes s ! k)). node_id c \<noteq> node_id u) \<longrightarrow>
         updateRecursive u (nodes s) ! k = nodes s ! k \<and> updateProvenance u (nodes s) ! k = Kept) \<and>
      (node_id (nodes s ! k) \<noteq> node_id u \<and>
       (\<exists>c\<in>set (children (nodes s ! k)). node_id c = node_id u) \<longrightarrow>
         (\<exists>cs ps.
            updateRecursive u (nodes s) ! k = with_children (nodes s ! k) cs \<and>
            updateProvenance u (nodes s) ! k = Copy ps \<and>
            length cs = length (children (nodes s ! k)) \<and>
            length ps = length (children (nodes s ! k)) \<and>
            (\<forall>j<length (children (nodes s ! k)).
               if node_id (children (nodes s ! k) ! j) = node_id u
               then cs ! j = u \<and> ps ! j = Replacement
               else cs ! j = children (nodes s ! k) ! j \<and> ps ! j = Kept))))"
proof -
  have inner: "\<exists>cs ps.
            fst (updateTop u n) = with_children n cs \<and>
            snd (updateTop u n) = Copy ps \<and>
            length cs = length (children n) \<and>
            length ps = length (children n) \<and>
            (\<forall>j<length (children n).
               if node_id (children n ! j) = node_id u
               then cs ! j = u \<and> ps ! j = Replacement
               else cs ! j = children n ! j \<and> ps ! j = Kept)"
    if "node_id n \<noteq> node_id u" "\<exists>c\<in>set (children n). node_id c = node_id u" for n
  proof -
    let ?cs = "map (fst \<circ> updateChild u) (children n)"
    let ?ps = "map (snd \<circ> updateChild u) (children n)"
    have "updateTop u n = (with_children n ?cs, Copy ?ps)"
      using updateTop_cases [of n u] that by blast
    moreover have "\<forall>j<length (children n).
               if node_id (children n ! j) = node_id u
               then ?cs ! j = u \<and> ?ps ! j = Replacement
               else ?cs ! j = children n ! j \<and> ?ps ! j = Kept"
      by (simp add: updateChild_def)
    ultimately show ?thesis
      by (intro exI [of _ ?cs] exI [of _ ?ps]) simp
  qed
  have per: "(node_id (nodes s ! k) = node_id u \<longrightarrow>
         updateRecursive u (nodes s) ! k = u \<and> updateProvenance u (nodes s) ! k = Replacement) \<and>
      (node_id (nodes s ! k) \<noteq> node_id u \<and>
       (\<forall>c\<in>set (children (nodes s ! k)). node_id c \<noteq> node_id u) \<longrightarrow>
         updateRecursive u (nodes s) ! k = nodes s ! k \<and> updateProvenance u (nodes s) ! k = Kept) \<and>
      (node_id (nodes s ! k) \<noteq> node_id u \<and>
       (\<exists>c\<in>set (children (nodes s ! k)). node_id c = node_id u) \<longrightarrow>
         (\<exists>cs ps.
            updateRecursive u (nodes s) ! k = with_children (nodes s ! k) cs \<and>
            updateProvenance u (nodes s) ! k = Copy ps \<and>
            length cs = length (children (nodes s ! k)) \<and>
            length ps = length (children (nodes s ! k)) \<and>
            (\<forall>j<length (children (nodes s ! k)).
               if node_id (children (nodes s ! k) ! j) = node_id u
               then cs ! j = u \<and> ps ! j = Replacement
               else cs ! j = children (nodes s ! k) ! j \<and> ps ! j = Kept)))"
    if k: "k < length (nodes s)" for k
  proof -
    let ?n = "nodes s ! k"
    have e: "updateRecursive u (nodes s) ! k = fst (updateTop u ?n)"
      "updateProvenance u (nodes s) ! k = snd (updateTop u ?n)"
      using k by (simp_all add: updateRecursive_def updateProvenance_def)
    have c1: "node_id ?n = node_id u \<longrightarrow>
         fst (updateTop u ?n) = u \<and> snd (updateTop u ?n) = Replacement"
      using updateTop_cases [of ?n u] by simp
    have c2: "node_id ?n \<noteq> node_id u \<and> (\<forall>c\<in>set (children ?n). node_id c \<noteq> node_id u) \<longrightarrow>
         fst (updateTop u ?n) = ?n \<and> snd (updateTop u ?n) = Kept"
      using updateTop_cases [of ?n u] by simp
    have c3: "node_id ?n \<noteq> node_id u \<and> (\<exists>c\<in>set (children ?n). node_id c = node_id u) \<longrightarrow>
         (\<exists>cs ps.
            fst (updateTop u ?n) = with_children ?n cs \<and>
            snd (updateTop u ?n) = Copy ps \<and>
            length cs = length (children ?n) \<and>
            length ps = length (children ?n) \<and>
            (\<forall>j<length (children ?n).
               if node_id (children ?n ! j) = node_id u
               then cs ! j = u \<and> ps ! j = Replacement
               else cs ! j = children ?n ! j \<and> ps ! j = Kept))"
      using inner [of ?n] by (intro impI) (elim conjE, assumption)
    show ?thesis
      unfolding e by (intro conjI) (rule c1, rule c2, rule c3)
  qed
  show ?thesis
    using per by (simp add: handleUpdateNode_def updateRecursive_def updateProvenance_def)
qed

theorem update_frame_witness:
  "updateProvenance ex_update (nodes ex_state) = [Kept, Copy [Replacement, Kept], Kept, Kept] \<and>
   nodes (handleUpdateNode ex_update ex_state) =
     [SingleNode Time (mk_base ''1''),
      BranchNode (mk_base ''2'') [ex_update, SingleNode Task (mk_base ''2b'')],
      BlockNode (mk_base ''block_1'') [SingleNode Time (mk_base ''side_1'')] None None,
      SingleNode Task (mk_base ''task_lunch'')] \<and>
   length (updateProvenance ex_update (nodes ex_state)) = length (nodes ex_state)"
proof -
  have a: "updateProvenance ex_update (nodes ex_state) = [Kept, Copy [Replacement, Kept], Kept, Kept]"
    by (simp add: ex_update_def updateProvenance_def ev_defs)
  have b: "nodes (handleUpdateNode ex_update ex_state) =
     [SingleNode Time (mk_base ''1''),
      BranchNode (mk_base ''2'') [ex_update, SingleNode Task (mk_base ''2b'')],
      BlockNode (mk_base ''block_1'') [SingleNode Time (mk_base ''side_1'')] None None,
      SingleNode Task (mk_base ''task_lunch'')]"
    by (simp add: ex_update_def ev_defs)
  have c: "length (updateProvenance ex_update (nodes ex_state)) = length (nodes ex_state)"
    by (rule conjunct1 [OF conjunct2 [OF conjunct2 [OF update_frame]]])
  show ?thesis
    using a b c by (intro conjI)
qed

section \<open>Drop on the trash zone\<close>

lemma handleDrop_resets:
  "fst (handleDrop dataTransfer c) =
     c\<lparr>isDragging := False, dragOverId := None, dropPosition := None, isOverTrash := False\<rparr>"
  by (cases dataTransfer) (simp_all add: handleDrop_def Let_def split: option.splits)

lemma handleDrop_trash:
  "isOverTrash c \<Longrightarrow>
   snd (handleDrop (Payload d) c) =
     (if drag_source d = ''canvas'' then Some (OnDeleteNode (drag_id d)) else None)"
  by (simp add: handleDrop_def Let_def)

lemma fst_dropEvent: "fst (dropEvent dataTransfer now (c, s)) = fst (handleDrop dataTransfer c)"
  by (cases "handleDrop dataTransfer c") (simp add: dropEvent_def split: option.splits)

lemma snd_dropEvent:
  "snd (dropEvent dataTransfer now (c, s)) =
     (case snd (handleDrop dataTransfer c) of None \<Rightarrow> s | Some k \<Rightarrow> dispatch k now s)"
  by (cases "handleDrop dataTransfer c") (simp add: dropEvent_def split: option.splits)

text \<open>
  C9. A drop while the coordinator is over the trash zone invokes \<open>onDeleteNode\<close> with the
  id of the payload if and only if the source of the payload is \<open>'canvas'\<close>, and invokes
  no other callback; the node with that id is then gone from the sequence. A payload of
  any other source, the sidebar's among them, leaves the application state as it is. The
  trash zone's drag-over handler arms \<open>isOverTrash\<close>. Every drop, with or without a payload
  and with or without a mutation, leaves \<open>isDragging\<close>, \<open>dragOverId\<close>, \<open>dropPosition\<close> and
  \<open>isOverTrash\<close> at their idle values.
\<close>

theorem trash_drop:
  "(isOverTrash c \<longrightarrow>
      snd (handleDrop (Payload d) c) =
        (if drag_source d = ''canvas'' then Some (OnDeleteNode (drag_id d)) else None)) \<and>
   (isOverTrash c \<and> drag_source d = ''canvas'' \<and> drag_id d = Some i \<longrightarrow>
      snd (dropEvent (Payload d) now (c, s)) = handleDeleteNode i s \<and>
      nodes (snd (dropEvent (Payload d) now (c, s))) = deleteRecursive i (nodes s) \<and>
      i \<notin> set (all_ids (nodes (snd (dropEvent (Payload d) now (c, s)))))) \<and>
   (isOverTrash c \<and> drag_source d \<noteq> ''canvas'' \<longrightarrow>
      snd (dropEvent (Payload d) now (c, s)) = s) \<and>
   isOverTrash (trash_onDragOver c) \<and>
   fst (handleDrop dataTransfer c) =
     c\<lparr>isDragging := False, dragOverId := None, dropPosition := None, isOverTrash := False\<rparr> \<and>
   fst (dropEvent dataTransfer now (c, s)) =
     c\<lparr>isDragging := False, dragOverId := None, dropPosition := None, isOverTrash := False\<rparr>"
proof -
  have 1: "isOverTrash c \<longrightarrow>
      snd (handleDrop (Payload d) c) =
        (if drag_source d = ''canvas'' then Some (OnDeleteNode (drag_id d)) else None)"
    by (simp add: handleDrop_trash)
  have 2: "isOverTrash c \<and> drag_source d = ''canvas'' \<and> drag_id d = Some i \<longrightarrow>
      snd (dropEvent (Payload d) now (c, s)) = handleDeleteNode i s \<and>
      nodes (snd (dropEvent (Payload d) now (c, s))) = deleteRecursive i (nodes s) \<and>
      i \<notin> set (all_ids (nodes (snd (dropEvent (Payload d) now (c, s)))))"
    by (simp add: snd_dropEvent handleDrop_trash handleDeleteNode_def deleteRecursive_gone)
  have 3: "isOverTrash c \<and> drag_source d \<noteq> ''canvas'' \<longrightarrow>
      snd (dropEvent (Payload d) now (c, s)) = s"
    by (simp add: snd_dropEvent handleDrop_trash)
  have 4: "isOverTrash (trash_onDragOver c)"
    by (simp add: trash_onDragOver_def)
  show ?thesis
    by (intro conjI) (rule 1, rule 2, rule 3, rule 4, rule handleDrop_resets,
        simp add: fst_dropEvent handleDrop_resets)
qed

theorem trash_drop_witness:
  "isOverTrash (trash_onDragOver (ex_canvas\<lparr>isDragging := True\<rparr>)) \<and>
   snd (handleDrop (Payload ex_move) (trash_onDragOver (ex_canvas\<lparr>isDragging := True\<rparr>))) =
     Some (OnDeleteNode (Some ''1'')) \<and>
   nodes (snd (dropEvent (Payload ex_move) 0 (trash_onDragOver (ex_canvas\<lparr>isDragging := True\<rparr>), ex_state))) =
     [BranchNode (mk_base ''2'') [SingleNode Task (mk_base ''2a''), SingleNode Task (mk_base ''2b'')],
      BlockNode (mk_base ''block_1'') [SingleNode Time (mk_base ''side_1'')] None None,
      SingleNode Task (mk_base ''task_lunch'')] \<and>
   snd (dropEvent (Payload ex_tool) 0 (trash_onDragOver (ex_canvas\<lparr>isDragging := True\<rparr>), ex_state)) =
     ex_state \<and>
   fst (dropEvent (Payload ex_move) 0 (trash_onDragOver (ex_canvas\<lparr>isDragging := True\<rparr>), ex_state)) =
     ex_canvas"
proof -
  let ?c = "trash_onDragOver (ex_canvas\<lparr>isDragging := True\<rparr>)"
  have t: "isOverTrash ?c"
    by (simp add: trash_onDragOver_def)
  have m: "drag_source ex_move = ''canvas''" "drag_id ex_move = Some ''1''"
    by (simp_all add: ex_move_def)
  have l: "drag_source ex_tool \<noteq> ''canvas''"
    by (simp add: ex_tool_def)
  have d: "deleteRecursive ''1'' (nodes ex_state) =
     [BranchNode (mk_base ''2'') [SingleNode Task (mk_base ''2a''), SingleNode Task (mk_base ''2b'')],
      BlockNode (mk_base ''block_1'') [SingleNode Time (mk_base ''side_1'')] None None,
      SingleNode Task (mk_base ''task_lunch'')]"
    by (simp add: ev_defs)
  have e: "?c\<lparr>isDragging := False, dragOverId := None, dropPosition := None, isOverTrash := False\<rparr>
      = ex_canvas"
    by (simp add: trash_onDragOver_def ex_canvas_def)
  note M = trash_drop [of ?c ex_move "''1''" 0 ex_state "Payload ex_move"]
  note T = trash_drop [of ?c ex_tool "''1''" 0 ex_state "Payload ex_tool"]
  have w1: "snd (handleDrop (Payload ex_move) ?c) = Some (OnDeleteNode (Some ''1''))"
    using conjunct1 [OF M] t m by simp
  have w2: "nodes (snd (dropEvent (Payload ex_move) 0 (?c, ex_state))) = deleteRecursive ''1'' (nodes ex_state)"
    using conjunct1 [OF conjunct2 [OF M]] t m by blast
  have w3: "snd (dropEvent (Payload ex_tool) 0 (?c, ex_state)) = ex_state"
    using conjunct1 [OF conjunct2 [OF conjunct2 [OF T]]] t l by simp
  have w4: "fst (dropEvent (Payload ex_move) 0 (?c, ex_state)) =
      ?c\<lparr>isDragging := False, dragOverId := None, dropPosition := None, isOverTrash := False\<rparr>"
    using M by (elim conjE)
  show ?thesis
    using t w1 w2 w3 w4 unfolding d e by (intro conjI)
qed

section \<open>Drop position while hovering\<close>




section \<open>Double arithmetic\<close>

lemma rne_error: "\<bar>of_int (rne x) - x\<bar> \<le> 1 / 2"
proof -
  have "of_int \<lfloor>x\<rfloor> \<le> x" "x < of_int \<lfloor>x\<rfloor> + 1" by linarith+
  then show ?thesis by (auto simp: rne_def Let_def)
qed

lemma rnd_0 [simp]: "rnd 0 = 0"
  by (simp add: rnd_def)

lemma powr_powi: "0 < x \<Longrightarrow> x powr real_of_int n = x powi n"
  by (simp add: powr_real_of_int power_int_def power_inverse)

lemma ulp_exp_normal:
  assumes "2 ^ 52 \<le> \<bar>x\<bar> / 2 powi e" "\<bar>x\<bar> / 2 powi e < 2 ^ 53" "- 1074 \<le> e"
  shows "ulp_exp x = e"
proof -
  have p: "(0::real) < 2 powi e" by simp
  have lo: "2 powi (e + 52) \<le> \<bar>x\<bar>"
    using assms(1) p by (simp add: power_int_add field_simps)
  have hi: "\<bar>x\<bar> < 2 powi (e + 53)"
    using assms(2) p by (simp add: power_int_add field_simps)
  have x0: "0 < \<bar>x\<bar>" using lo zero_less_power_int [of "2::real" "e + 52"] by linarith
  have "\<lfloor>log 2 \<bar>x\<bar>\<rfloor> = e + 52"
    using lo hi x0 powr_powi [of "2::real" "e + 52"] powr_powi [of "2::real" "e + 52 + 1"]
    by (simp add: floor_log_eq_powr_iff add.commute add.left_commute)
  then show ?thesis using assms(3) by (simp add: ulp_exp_def)
qed

lemma rnd_normal:
  assumes "2 ^ 52 \<le> \<bar>x\<bar> / 2 powi e" "\<bar>x\<bar> / 2 powi e < 2 ^ 53" "- 1074 \<le> e"
  shows "rnd x = of_int (rne (x / 2 powi e)) * 2 powi e"
proof -
  have "x \<noteq> 0" using assms(1) by auto
  then show ?thesis by (simp add: rnd_def ulp_exp_normal [OF assms])
qed

text \<open>
  The rounding error of one operation: half a unit in the last place, which is at most
  \<open>\<bar>x\<bar> / 2 ^ 53\<close> in the normal range and \<open>1 / 2 ^ 1075\<close> in the subnormal range.
\<close>

lemma rnd_error: "\<bar>rnd x - x\<bar> \<le> \<bar>x\<bar> / 2 ^ 53 + 1 / 2 ^ 1075"
proof (cases "x = 0")
  case True
  then show ?thesis by simp
next
  case False
  define E where "E = ulp_exp x"
  have p: "(0::real) < 2 powi E" by simp
  have "rnd x - x = (of_int (rne (x / 2 powi E)) - x / 2 powi E) * 2 powi E"
    using False p by (simp add: rnd_def E_def field_simps)
  then have d: "\<bar>rnd x - x\<bar> \<le> 2 powi E / 2"
    using rne_error [of "x / 2 powi E"] p by (simp add: abs_mult)
  show ?thesis
  proof (cases "\<lfloor>log 2 \<bar>x\<bar>\<rfloor> - 52 \<le> - 1074")
    case True
    then have "E = - 1074" by (simp add: E_def ulp_exp_def)
    then have "2 powi E / 2 = (1::real) / 2 ^ 1075"
      by (simp add: power_int_def power_inverse field_simps)
    with d show ?thesis by (smt (verit) abs_ge_zero divide_nonneg_pos zero_less_power)
  next
    case False
    then have e: "E = \<lfloor>log 2 \<bar>x\<bar>\<rfloor> - 52" by (simp add: E_def ulp_exp_def)
    have "2 powr real_of_int \<lfloor>log 2 \<bar>x\<bar>\<rfloor> \<le> \<bar>x\<bar>"
      using \<open>x \<noteq> 0\<close> floor_log_eq_powr_iff [of "\<bar>x\<bar>" 2 "\<lfloor>log 2 \<bar>x\<bar>\<rfloor>"] by simp
    then have "2 powi (E + 52) \<le> \<bar>x\<bar>"
      by (simp add: e powr_powi)
    then have "2 powi E * 2 ^ 52 \<le> \<bar>x\<bar>"
      by (simp add: power_int_add)
    then have "2 powi E / 2 \<le> \<bar>x\<bar> / 2 ^ 53"
      by (simp add: field_simps)
    with d show ?thesis by (smt (verit) divide_nonneg_pos zero_less_power)
  qed
qed

text \<open>
  Evaluation of \<open>rnd\<close> on a rational below \<open>2 ^ 53\<close>: scaled by the power of two that
  brings it into \<open>[2 ^ 52, 2 ^ 53)\<close>, it is rounded to an integer.
\<close>

lemma rnd_scaled:
  assumes "2 ^ 52 \<le> \<bar>x\<bar> * 2 ^ k" "\<bar>x\<bar> * 2 ^ k < 2 ^ 53" "k \<le> 1074"
  shows "rnd x = of_int (rne (x * 2 ^ k)) / 2 ^ k"
proof -
  have e: "(2::real) powi (- int k) = 1 / 2 ^ k"
    by (simp add: power_int_minus field_simps)
  show ?thesis
    using rnd_normal [of x "- int k"] assms by (simp add: e)
qed

lemmas rnd_eval =
  rnd_scaled [where k = 44] rnd_scaled [where k = 45] rnd_scaled [where k = 46]
  rnd_scaled [where k = 47] rnd_scaled [where k = 48] rnd_scaled [where k = 49]
  rnd_scaled [where k = 50] rnd_scaled [where k = 51] rnd_scaled [where k = 52]
  rnd_scaled [where k = 53] rnd_scaled [where k = 54] rnd_scaled [where k = 55]
  rnd_scaled [where k = 56] rnd_scaled [where k = 57] rnd_scaled [where k = 58]
  rnd_scaled [where k = 59] rnd_scaled [where k = 60] rnd_scaled [where k = 61]
  rnd_scaled [where k = 62] rne_def Let_def fadd_def fsub_def fmul_def fdiv_def

lemma rnd_literals:
  "rnd 0.001 = 4611686018427388 / 2 ^ 62" "rnd 0.2 = 7205759403792794 / 2 ^ 55"
  by (simp_all add: rnd_eval)

lemma rnd_literal_bounds: "0.2 \<le> rnd 0.2" "rnd 0.2 \<le> 3"
  by (simp_all add: rnd_eval)

lemma scenario_values:
  "fsub 100 (fmul (fdiv (fsub 100 0) 1) 1.5) = - 50"
  "fdiv (fsub 100 0) 1 = 100"
  "fadd (fmul 100 1.5) (- 50) = 100"
  by (simp_all add: rnd_eval)

text \<open>
  The error of a difference \<open>p\<close> of \<open>mx\<close> and \<open>t\<close> that is added to \<open>t\<close> again, with
  \<open>u\<close> the relative and \<open>a\<close> the absolute error of one operation.
\<close>

lemma add_back_error:
  fixes u a :: real
  assumes p: "\<bar>p - (mx - t)\<bar> \<le> u * \<bar>mx - t\<bar> + a"
      and s: "\<bar>s - (t + p)\<bar> \<le> u * \<bar>t + p\<bar> + a"
      and u: "0 \<le> u" "u \<le> 1" and a: "0 \<le> a"
  shows "\<bar>s - mx\<bar> \<le> u * (\<bar>mx\<bar> + 2 * \<bar>mx - t\<bar>) + 3 * a"
proof -
  let ?d = "\<bar>mx - t\<bar>"
  have 1: "\<bar>t + p - mx\<bar> \<le> u * ?d + a"
    using p by (simp add: algebra_simps)
  have "u * ?d \<le> ?d"
    using u(2) mult_right_mono [of u 1 ?d] by simp
  with 1 have 2: "\<bar>t + p\<bar> \<le> \<bar>mx\<bar> + ?d + a"
    by linarith
  have "u * \<bar>t + p\<bar> \<le> u * (\<bar>mx\<bar> + ?d + a)"
    using 2 u(1) by (rule mult_left_mono)
  moreover have "u * a \<le> a"
    using u(2) a mult_right_mono [of u 1 a] by simp
  ultimately have "u * \<bar>t + p\<bar> \<le> u * \<bar>mx\<bar> + u * ?d + a"
    by (simp add: algebra_simps)
  with s 1 have "\<bar>s - mx\<bar> \<le> u * \<bar>mx\<bar> + u * ?d + a + a + (u * ?d + a)"
    by linarith
  then show ?thesis by (simp add: algebra_simps)
qed

lemma pointer_error:
  "\<bar>wx * z + fsub mx (fmul wx z) - mx\<bar> \<le>
     (\<bar>wx * z\<bar> + \<bar>mx - fmul wx z\<bar>) / 2 ^ 53 + 2 / 2 ^ 1075"
  "\<bar>fadd (fmul wx z) (fsub mx (fmul wx z)) - mx\<bar> \<le>
     (\<bar>mx\<bar> + 2 * \<bar>mx - fmul wx z\<bar>) / 2 ^ 53 + 3 / 2 ^ 1075"
proof -
  let ?t = "fmul wx z"
  let ?p = "fsub mx ?t"
  have t: "\<bar>?t - wx * z\<bar> \<le> \<bar>wx * z\<bar> / 2 ^ 53 + 1 / 2 ^ 1075"
    unfolding fmul_def by (rule rnd_error)
  have p: "\<bar>?p - (mx - ?t)\<bar> \<le> \<bar>mx - ?t\<bar> / 2 ^ 53 + 1 / 2 ^ 1075"
    unfolding fsub_def by (rule rnd_error)
  have s: "\<bar>fadd ?t ?p - (?t + ?p)\<bar> \<le> \<bar>?t + ?p\<bar> / 2 ^ 53 + 1 / 2 ^ 1075"
    unfolding fadd_def by (rule rnd_error)
  have "\<bar>wx * z + ?p - mx\<bar> \<le> \<bar>?t - wx * z\<bar> + \<bar>?p - (mx - ?t)\<bar>"
    by linarith
  with t p show "\<bar>wx * z + ?p - mx\<bar> \<le> (\<bar>wx * z\<bar> + \<bar>mx - ?t\<bar>) / 2 ^ 53 + 2 / 2 ^ 1075"
    by (simp add: add_divide_distrib)
  have "\<bar>fadd ?t ?p - mx\<bar> \<le> (1 / 2 ^ 53) * (\<bar>mx\<bar> + 2 * \<bar>mx - ?t\<bar>) + 3 * (1 / 2 ^ 1075)"
    using p s by (intro add_back_error) simp_all
  then show "\<bar>fadd ?t ?p - mx\<bar> \<le> (\<bar>mx\<bar> + 2 * \<bar>mx - ?t\<bar>) / 2 ^ 53 + 3 / 2 ^ 1075"
    by simp
qed

section \<open>Viewport\<close>

lemma handleWheel_zoom:
  "buttons e = 2 \<or> ctrlKey e \<Longrightarrow>
   zoom (handleWheel e (Some r) c) =
     min (max (fadd (zoom c) (fmul (- deltaY e) (rnd 0.001))) (rnd 0.2)) 3"
  by (auto simp: handleWheel_def Let_def)

lemma handleWheel_pan_x:
  "buttons e = 2 \<or> ctrlKey e \<Longrightarrow>
   pan_x (handleWheel e (Some r) c) =
     fsub (fsub (clientX e) (rect_left r))
       (fmul (fdiv (fsub (fsub (clientX e) (rect_left r)) (pan_x c)) (zoom c))
          (zoom (handleWheel e (Some r) c)))"
  by (auto simp: handleWheel_def Let_def)

lemma zoom_out_values:
  "fsub 16 0 = 16"
  "fdiv (fsub 16 300) 1 = - 284"
  "fmul (- 100) (rnd 0.001) = - 7205759403792794 / 2 ^ 56"
  "fadd 1 (- 7205759403792794 / 2 ^ 56) = 8106479329266893 / 2 ^ 53"
  "fmul (- 284) (8106479329266893 / 2 ^ 53) = - 8993125505905459 / 2 ^ 45"
  "fsub 16 (- 8993125505905459 / 2 ^ 45) = 4778037729663386 / 2 ^ 44"
  "fadd (- 8993125505905459 / 2 ^ 45) (4778037729663386 / 2 ^ 44) = 16 + 1 / 2 ^ 45"
  by (simp_all add: rnd_eval)

lemma zoom_in_values:
  "fmul 2000 (rnd 0.001) = 2"
  "fadd 1 2 = 3"
  by (simp_all add: rnd_eval)

text \<open>
  C3, as the code has it. The program computes in doubles, so each operation of
  handleWheel rounds. Let the zoom be in the range \<open>[0.2, 3]\<close>, the zoom modifier hold
  (\<open>e.buttons === 2\<close> or \<open>e.ctrlKey\<close>), the container's rectangle be \<open>r\<close> and the inputs
  be far from overflow. With \<open>(mx, my)\<close> the pointer relative to the container,
  \<open>(wx, wy)\<close> the world point computed for it and \<open>z'\<close> the new clamped zoom, the new zoom
  is \<open>z'\<close> and the new pan is the rounded value of \<open>(mx - wx * z', my - wy * z')\<close>, the
  product rounded first. The world point then maps to the pointer's screen point up to
  rounding: \<open>wx * z' + pan_x'\<close> differs from \<open>mx\<close> by at most
  \<open>(\<bar>wx * z'\<bar> + \<bar>mx - t\<bar>) / 2 ^ 53 + 2 / 2 ^ 1075\<close> when evaluated exactly and by at most
  \<open>(\<bar>mx\<bar> + 2 * \<bar>mx - t\<bar>) / 2 ^ 53 + 3 / 2 ^ 1075\<close> when evaluated in doubles, \<open>t\<close> being the
  rounded product; likewise for \<open>y\<close>. From zoom 1 and pan (0, 0), an event at
  (100, 100) that gives zoom 1.5 gives pan (-50, -50), and there the world point maps to
  the pointer exactly.
\<close>

theorem wheel_zoom_keeps_pointer:
  fixes e :: WheelEvent and r :: DOMRect and c :: CanvasState
  defines "mx \<equiv> fsub (clientX e) (rect_left r)"
      and "my \<equiv> fsub (clientY e) (rect_top r)"
  defines "wx \<equiv> fdiv (fsub mx (pan_x c)) (zoom c)"
      and "wy \<equiv> fdiv (fsub my (pan_y c)) (zoom c)"
      and "z' \<equiv> min (max (fadd (zoom c) (fmul (- deltaY e) (rnd 0.001))) (rnd 0.2)) 3"
  defines "c' \<equiv> handleWheel e (Some r) c"
  assumes "0.2 \<le> zoom c" "zoom c \<le> 3" "buttons e = 2 \<or> ctrlKey e"
      and "wheel_inputs_bounded e r c"
  shows "zoom c' = z' \<and> 0.2 \<le> z' \<and> z' \<le> 3 \<and>
         pan_x c' = fsub mx (fmul wx z') \<and>
         pan_y c' = fsub my (fmul wy z') \<and>
         \<bar>wx * z' + pan_x c' - mx\<bar> \<le> (\<bar>wx * z'\<bar> + \<bar>mx - fmul wx z'\<bar>) / 2 ^ 53 + 2 / 2 ^ 1075 \<and>
         \<bar>wy * z' + pan_y c' - my\<bar> \<le> (\<bar>wy * z'\<bar> + \<bar>my - fmul wy z'\<bar>) / 2 ^ 53 + 2 / 2 ^ 1075 \<and>
         \<bar>fadd (fmul wx z') (pan_x c') - mx\<bar> \<le> (\<bar>mx\<bar> + 2 * \<bar>mx - fmul wx z'\<bar>) / 2 ^ 53 + 3 / 2 ^ 1075 \<and>
         \<bar>fadd (fmul wy z') (pan_y c') - my\<bar> \<le> (\<bar>my\<bar> + 2 * \<bar>my - fmul wy z'\<bar>) / 2 ^ 53 + 3 / 2 ^ 1075 \<and>
         (zoom c = 1 \<and> pan_x c = 0 \<and> pan_y c = 0 \<and> mx = 100 \<and> my = 100 \<and> z' = 1.5 \<longrightarrow>
            pan_x c' = - 50 \<and> pan_y c' = - 50 \<and>
            wx * z' + pan_x c' = mx \<and> wy * z' + pan_y c' = my \<and>
            fadd (fmul wx z') (pan_x c') = mx \<and> fadd (fmul wy z') (pan_y c') = my)"
proof -
  have z: "zoom c' = z'"
    using assms(9) by (auto simp: c'_def handleWheel_def Let_def z'_def)
  have px: "pan_x c' = fsub mx (fmul wx z')"
    using assms(9) by (auto simp: c'_def handleWheel_def Let_def z'_def wx_def mx_def)
  have py: "pan_y c' = fsub my (fmul wy z')"
    using assms(9) by (auto simp: c'_def handleWheel_def Let_def z'_def wy_def my_def)
  have b: "0.2 \<le> z'" "z' \<le> 3"
    using rnd_literal_bounds by (simp_all add: z'_def le_max_iff_disj)
  have ex: "zoom c = 1 \<and> pan_x c = 0 \<and> pan_y c = 0 \<and> mx = 100 \<and> my = 100 \<and> z' = 1.5 \<longrightarrow>
            pan_x c' = - 50 \<and> pan_y c' = - 50 \<and>
            wx * z' + pan_x c' = mx \<and> wy * z' + pan_y c' = my \<and>
            fadd (fmul wx z') (pan_x c') = mx \<and> fadd (fmul wy z') (pan_y c') = my"
  proof (intro impI, elim conjE)
    assume v: "zoom c = 1" "pan_x c = 0" "pan_y c = 0" "mx = 100" "my = 100" "z' = 1.5"
    have w: "wx = 100" "wy = 100"
      unfolding wx_def wy_def v using scenario_values(2) by simp_all
    show "pan_x c' = - 50 \<and> pan_y c' = - 50 \<and>
            wx * z' + pan_x c' = mx \<and> wy * z' + pan_y c' = my \<and>
            fadd (fmul wx z') (pan_x c') = mx \<and> fadd (fmul wy z') (pan_y c') = my"
      unfolding px py w v using scenario_values by simp
  qed
  have ex': "\<bar>wx * z' + pan_x c' - mx\<bar> \<le> (\<bar>wx * z'\<bar> + \<bar>mx - fmul wx z'\<bar>) / 2 ^ 53 + 2 / 2 ^ 1075"
    unfolding px by (rule pointer_error(1))
  have ey': "\<bar>wy * z' + pan_y c' - my\<bar> \<le> (\<bar>wy * z'\<bar> + \<bar>my - fmul wy z'\<bar>) / 2 ^ 53 + 2 / 2 ^ 1075"
    unfolding py by (rule pointer_error(1))
  have fx': "\<bar>fadd (fmul wx z') (pan_x c') - mx\<bar> \<le> (\<bar>mx\<bar> + 2 * \<bar>mx - fmul wx z'\<bar>) / 2 ^ 53 + 3 / 2 ^ 1075"
    unfolding px by (rule pointer_error(2))
  have fy': "\<bar>fadd (fmul wy z') (pan_y c') - my\<bar> \<le> (\<bar>my\<bar> + 2 * \<bar>my - fmul wy z'\<bar>) / 2 ^ 53 + 3 / 2 ^ 1075"
    unfolding py by (rule pointer_error(2))
  show ?thesis
    by (intro conjI) (rule z, rule b(1), rule b(2), rule px, rule py, rule ex', rule ey',
        rule fx', rule fy', rule ex)
qed

theorem wheel_zoom_keeps_pointer_witness:
  "0.2 \<le> zoom ex_canvas \<and> zoom ex_canvas \<le> 3 \<and> ctrlKey ex_wheel \<and>
   wheel_inputs_bounded ex_wheel ex_rect ex_canvas \<and>
   fsub (clientX ex_wheel) (rect_left ex_rect) = 100 \<and>
   fsub (clientY ex_wheel) (rect_top ex_rect) = 100 \<and>
   zoom (handleWheel ex_wheel (Some ex_rect) ex_canvas) = 1.5 \<and>
   pan_x (handleWheel ex_wheel (Some ex_rect) ex_canvas) = - 50 \<and>
   pan_y (handleWheel ex_wheel (Some ex_rect) ex_canvas) = - 50 \<and>
   100 * 1.5 + pan_x (handleWheel ex_wheel (Some ex_rect) ex_canvas) = 100 \<and>
   100 * 1.5 + pan_y (handleWheel ex_wheel (Some ex_rect) ex_canvas) = 100"
proof -
  have a: "0.2 \<le> zoom ex_canvas" "zoom ex_canvas \<le> 3" "buttons ex_wheel = 2 \<or> ctrlKey ex_wheel"
    "wheel_inputs_bounded ex_wheel ex_rect ex_canvas"
    by (simp_all add: ex_canvas_def ex_wheel_def ex_rect_def wheel_inputs_bounded_def)
  have v: "zoom ex_canvas = 1" "pan_x ex_canvas = 0" "pan_y ex_canvas = 0"
    "clientX ex_wheel = 100" "clientY ex_wheel = 100" "deltaY ex_wheel = - 500" "ctrlKey ex_wheel"
    "rect_left ex_rect = 0" "rect_top ex_rect = 0"
    by (simp_all add: ex_canvas_def ex_wheel_def ex_rect_def)
  note T = wheel_zoom_keeps_pointer [OF a]
  have m: "fsub (clientX ex_wheel) (rect_left ex_rect) = 100"
    "fsub (clientY ex_wheel) (rect_top ex_rect) = 100"
    by (simp_all add: v rnd_eval)
  have z: "zoom (handleWheel ex_wheel (Some ex_rect) ex_canvas) = 1.5"
    using T [THEN conjunct1] by (simp add: v rnd_eval)
  have px: "pan_x (handleWheel ex_wheel (Some ex_rect) ex_canvas) = - 50"
    using T [THEN conjunct2, THEN conjunct2, THEN conjunct2, THEN conjunct1]
    by (simp add: v rnd_eval)
  have py: "pan_y (handleWheel ex_wheel (Some ex_rect) ex_canvas) = - 50"
    using T [THEN conjunct2, THEN conjunct2, THEN conjunct2, THEN conjunct2, THEN conjunct1]
    by (simp add: v rnd_eval)
  show ?thesis
    unfolding z px py m using a(1,2,4) v(7) by simp
qed

text \<open>
  C3 as stated fails: the identity holds in exact arithmetic only. At zoom 1 and pan
  (300, 0), a wheel event with the modifier at the pointer (16, 100) with \<open>deltaY = 100\<close>
  gives the world point -284, the zoom 0.9 (as a double) and a pan with which the world
  point maps to \<open>16 + 148 / 2 ^ 53\<close> in exact arithmetic, and to \<open>16 + 1 / 2 ^ 45\<close> in the
  program's arithmetic, not to 16.
\<close>

theorem wheel_zoom_keeps_pointer_counterexample:
  "zoom ex_canvas_panned = 1 \<and> ctrlKey ex_wheel_out \<and>
   fsub (clientX ex_wheel_out) (rect_left ex_rect) = 16 \<and>
   fdiv (fsub 16 (pan_x ex_canvas_panned)) (zoom ex_canvas_panned) = - 284 \<and>
   zoom (handleWheel ex_wheel_out (Some ex_rect) ex_canvas_panned) = 8106479329266893 / 2 ^ 53 \<and>
   pan_x (handleWheel ex_wheel_out (Some ex_rect) ex_canvas_panned) = 4778037729663386 / 2 ^ 44 \<and>
   - 284 * zoom (handleWheel ex_wheel_out (Some ex_rect) ex_canvas_panned) +
     pan_x (handleWheel ex_wheel_out (Some ex_rect) ex_canvas_panned) = 16 + 148 / 2 ^ 53 \<and>
   - 284 * zoom (handleWheel ex_wheel_out (Some ex_rect) ex_canvas_panned) +
     pan_x (handleWheel ex_wheel_out (Some ex_rect) ex_canvas_panned) \<noteq> 16 \<and>
   fadd (fmul (- 284) (zoom (handleWheel ex_wheel_out (Some ex_rect) ex_canvas_panned)))
     (pan_x (handleWheel ex_wheel_out (Some ex_rect) ex_canvas_panned)) = 16 + 1 / 2 ^ 45 \<and>
   fadd (fmul (- 284) (zoom (handleWheel ex_wheel_out (Some ex_rect) ex_canvas_panned)))
     (pan_x (handleWheel ex_wheel_out (Some ex_rect) ex_canvas_panned)) \<noteq> 16"
proof -
  have v: "zoom ex_canvas_panned = 1" "pan_x ex_canvas_panned = 300"
    "clientX ex_wheel_out = 16" "deltaY ex_wheel_out = 100" "ctrlKey ex_wheel_out"
    "rect_left ex_rect = 0"
    by (simp_all add: ex_canvas_panned_def ex_canvas_def ex_wheel_out_def ex_rect_def)
  have m: "fsub (clientX ex_wheel_out) (rect_left ex_rect) = 16"
    unfolding v by (rule zoom_out_values(1))
  have w: "fdiv (fsub 16 (pan_x ex_canvas_panned)) (zoom ex_canvas_panned) = - 284"
    unfolding v by (rule zoom_out_values(2))
  have k: "0.2 \<le> (8106479329266893 / 2 ^ 53 :: real)" "(8106479329266893 / 2 ^ 53 :: real) \<le> 3"
    by simp_all
  have r: "rnd 0.2 \<le> 8106479329266893 / 2 ^ 53"
    by (simp add: rnd_eval)
  have h: "zoom (handleWheel ex_wheel_out (Some ex_rect) ex_canvas_panned) =
      min (max (fadd 1 (fmul (- 100) (rnd 0.001))) (rnd 0.2)) 3"
    using handleWheel_zoom [of ex_wheel_out ex_rect ex_canvas_panned] v by simp
  have z: "zoom (handleWheel ex_wheel_out (Some ex_rect) ex_canvas_panned) =
      8106479329266893 / 2 ^ 53"
    unfolding h zoom_out_values(3) zoom_out_values(4) max_absorb1 [OF r] min_absorb1 [OF k(2)]
    by (rule refl)
  have q: "pan_x (handleWheel ex_wheel_out (Some ex_rect) ex_canvas_panned) =
      fsub 16 (fmul (- 284) (8106479329266893 / 2 ^ 53))"
    using handleWheel_pan_x [of ex_wheel_out ex_rect ex_canvas_panned] v(5)
    unfolding m w z by simp
  have p: "pan_x (handleWheel ex_wheel_out (Some ex_rect) ex_canvas_panned) =
      4778037729663386 / 2 ^ 44"
    unfolding q zoom_out_values(5) by (rule zoom_out_values(6))
  have x: "- 284 * (8106479329266893 / 2 ^ 53) + 4778037729663386 / 2 ^ 44 =
      (16 + 148 / 2 ^ 53 :: real)"
    by simp
  have x': "(16 + 148 / 2 ^ 53 :: real) \<noteq> 16" "(16 + 1 / 2 ^ 45 :: real) \<noteq> 16"
    by simp_all
  have f: "fadd (fmul (- 284) (8106479329266893 / 2 ^ 53)) (4778037729663386 / 2 ^ 44) =
      16 + 1 / 2 ^ 45"
    unfolding zoom_out_values(5) by (rule zoom_out_values(7))
  show ?thesis
    unfolding z p x f
    by (intro conjI) (rule v(1), rule v(5), rule m, rule w, rule refl, rule refl, rule refl,
        rule x'(1), rule refl, rule x'(2))
qed

text \<open>
  C8 fails on the code. The wheel clamps the zoom to \<open>[0.2, 3]\<close>; the zoom-in control
  clamps to at most 2, the zoom-out control to at least 0.2. The upper bounds differ: a
  wheel zoom from 1 reaches 3, and the zoom-in control then sets the zoom to 2.
\<close>

theorem zoom_bounds_differ:
  "zoom (handleZoomIn c) \<le> 2 \<and>
   0.2 \<le> zoom (handleZoomOut c) \<and>
   0.2 \<le> zoom (handleWheel (e\<lparr>ctrlKey := True\<rparr>) (Some r) c) \<and>
   zoom (handleWheel (e\<lparr>ctrlKey := True\<rparr>) (Some r) c) \<le> 3 \<and>
   zoom (handleWheel (ex_wheel\<lparr>deltaY := - 2000\<rparr>) (Some ex_rect) ex_canvas) = 3 \<and>
   zoom (handleZoomIn (handleWheel (ex_wheel\<lparr>deltaY := - 2000\<rparr>) (Some ex_rect) ex_canvas)) = 2"
proof -
  have h: "zoom (handleWheel (ex_wheel\<lparr>deltaY := - 2000\<rparr>) (Some ex_rect) ex_canvas) =
      min (max (fadd 1 (fmul 2000 (rnd 0.001))) (rnd 0.2)) 3"
    using handleWheel_zoom [of "ex_wheel\<lparr>deltaY := - 2000\<rparr>" ex_rect ex_canvas]
    by (simp add: ex_wheel_def ex_canvas_def)
  have w: "zoom (handleWheel (ex_wheel\<lparr>deltaY := - 2000\<rparr>) (Some ex_rect) ex_canvas) = 3"
    unfolding h zoom_in_values max_absorb1 [OF rnd_literal_bounds(2)] by simp
  have g: "0.2 \<le> zoom (handleWheel (e\<lparr>ctrlKey := True\<rparr>) (Some r) c)"
    "zoom (handleWheel (e\<lparr>ctrlKey := True\<rparr>) (Some r) c) \<le> 3"
    using rnd_literal_bounds by (simp_all add: handleWheel_zoom le_max_iff_disj)
  have i: "zoom (handleZoomIn c) \<le> 2" "0.2 \<le> zoom (handleZoomOut c)"
    by (simp_all add: handleZoomIn_def handleZoomOut_def)
  have j: "zoom (handleZoomIn (handleWheel (ex_wheel\<lparr>deltaY := - 2000\<rparr>) (Some ex_rect) ex_canvas)) = 2"
    using w by (simp add: handleZoomIn_def)
  show ?thesis
    by (intro conjI) (rule i(1), rule i(2), rule g(1), rule g(2), rule w, rule j)
qed

section \<open>Block resize\<close>

text \<open>
  C10. Numbers are reals here. During a resize of a block at a positive zoom \<open>z\<close>, the
  node that the mouse-move listener passes to \<open>onUpdateNode\<close> has
  \<open>customWidth = max 100 (startWidth + dx / z)\<close> and
  \<open>customHeight = max 100 (startHeight + dy / z)\<close>, where \<open>(dx, dy)\<close> is the displacement
  of the pointer since the mouse-down and the start size is the block's custom size, or
  128 where that is absent or 0. Both are at least 100, whatever the displacement; the
  other attributes and the side events of the block are as they were.
\<close>

theorem resize_min_size:
  fixes downEvent moveEvent :: MouseEvent and cw ch :: "real option" and z :: real and b :: BaseNode
    and es :: "FlowNode list"
  defines "st \<equiv> handleResizeStart downEvent cw ch"
  defines "n' \<equiv> resize_handleMouseMove moveEvent st z b es"
  assumes "0 < z"
  shows "startWidth st = (case cw of None \<Rightarrow> 128 | Some w \<Rightarrow> if w = 0 then 128 else w) \<and>
         startHeight st = (case ch of None \<Rightarrow> 128 | Some h \<Rightarrow> if h = 0 then 128 else h) \<and>
         customWidth n' = Some (max 100 (startWidth st + (clientX moveEvent - clientX downEvent) / z)) \<and>
         customHeight n' = Some (max 100 (startHeight st + (clientY moveEvent - clientY downEvent) / z)) \<and>
         (\<exists>w h. customWidth n' = Some w \<and> customHeight n' = Some h \<and> 100 \<le> w \<and> 100 \<le> h) \<and>
         base n' = b \<and> children n' = es"
  by (simp add: st_def n'_def handleResizeStart_def resize_handleMouseMove_def Let_def)

theorem resize_min_size_witness:
  "(0::real) < 1 \<and>
   customWidth (resize_handleMouseMove \<lparr>clientX = - 1000000, clientY = 40\<rparr>
      (handleResizeStart ex_pointer None (Some 200)) 1 (mk_base ''block_1'') []) = Some 100 \<and>
   customHeight (resize_handleMouseMove \<lparr>clientX = - 1000000, clientY = 40\<rparr>
      (handleResizeStart ex_pointer None (Some 200)) 1 (mk_base ''block_1'') []) = Some 240"
proof -
  have z: "(0::real) < 1" by simp
  show ?thesis
    using resize_min_size [OF z, where moveEvent = "\<lparr>clientX = - 1000000, clientY = 40\<rparr>"
        and downEvent = ex_pointer and cw = None and ch = "Some 200" and b = "mk_base ''block_1''"
        and es = "[]"]
    by (simp add: handleResizeStart_def ex_pointer_def)
qed

section \<open>Load\<close>

lemma loadOnMount_Item:
  "data_layouts d = first # rest \<Longrightarrow>
   activeLayoutId (loadOnMount (Item d) hhmm s) =
     (case data_activeLayoutId d of
        None \<Rightarrow> layout_id first
      | Some a \<Rightarrow> if a = [] then layout_id first else a) \<and>
   layouts (loadOnMount (Item d) hhmm s) = data_layouts d \<and>
   nodes (loadOnMount (Item d) hhmm s) =
     (case find (\<lambda>l. layout_id l = activeLayoutId (loadOnMount (Item d) hhmm s)) (data_layouts d) of
        Some l \<Rightarrow> layout_nodes l
      | None \<Rightarrow> layout_nodes first)"
  by (simp add: loadOnMount_def Let_def truthy_def split: option.splits)

text \<open>
  C7 fails on the code. With a persisted active id that is not empty and is the id of no
  persisted layout, the active id is set to that id, not to the id of the first layout,
  while the nodes are loaded from the first layout: the active id then names no layout,
  and a later save merges the edited nodes into no layout. The fallback of the active id
  covers only an absent or empty id; the fallback of the layout lookup covers the
  unmatched id as well.
\<close>

theorem load_dangling_active_id:
  "activeLayoutId (loadOnMount (Item ex_saved) ''08:00'' ex_state) = ''layout_1730000000000'' \<and>
   map layout_id (layouts (loadOnMount (Item ex_saved) ''08:00'' ex_state)) =
     [''layout_weekday'', ''layout_weekend''] \<and>
   nodes (loadOnMount (Item ex_saved) ''08:00'' ex_state) = ex_nodes \<and>
   data_layouts (getPersistentData (layouts (loadOnMount (Item ex_saved) ''08:00'' ex_state))
      (activeLayoutId (loadOnMount (Item ex_saved) ''08:00'' ex_state)) edited) =
     layouts (loadOnMount (Item ex_saved) ''08:00'' ex_state)"
  by (simp add: loadOnMount_def ex_saved_def getPersistentData_def truthy_def Let_def)

end
